theory Spec2Isabelle
  imports Main "HOL-Library.Sublist"
begin

section \<open>pr_icon_differ: the webhook pipeline of IconDiffBot\<close>

text \<open>
  A shallow embedding of \<^verbatim>\<open>pr_icon_differ.py\<close>. Python \<^verbatim>\<open>str\<close> and \<^verbatim>\<open>bytes\<close> are both
  \<open>string\<close> (a list of 8-bit characters), so \<^verbatim>\<open>"".join(map(chr, payload))\<close> and the
  decoding behind \<^verbatim>\<open>req.text\<close> are the identity. The network, the scratch directory, the
  cache and the comment thread are explicit: what the outside world answers is a
  parameter (\<open>env\<close>), what the program changes is a state (\<open>world\<close>) that every
  operation takes and returns, and every outbound call is appended to a trace.
\<close>

subsection \<open>Strings\<close>

text \<open>\<^verbatim>\<open>s.split('\n')\<close>: always at least one piece.\<close>

fun split_nl :: "string \<Rightarrow> string list" where
  "split_nl [] = [[]]"
| "split_nl (c # cs) =
     (if c = CHR 0x0A then [] # split_nl cs
      else (case split_nl cs of [] \<Rightarrow> [[c]] | l # ls \<Rightarrow> (c # l) # ls))"

text \<open>\<^verbatim>\<open>'\n'.join(xs)\<close>.\<close>

fun join_nl :: "string list \<Rightarrow> string" where
  "join_nl [] = []"
| "join_nl [x] = x"
| "join_nl (x # y # ys) = x @ CHR 0x0A # join_nl (y # ys)"

text \<open>
  \<^verbatim>\<open>s.replace(old, '')\<close> for a non-empty \<open>old\<close>: every occurrence, found left to right
  without overlap, is dropped.
\<close>

function str_remove :: "string \<Rightarrow> string \<Rightarrow> string" where
  "str_remove old [] = []"
| "str_remove old (c # cs) =
     (if old \<noteq> [] \<and> prefix old (c # cs) then str_remove old (drop (length old) (c # cs))
      else c # str_remove old cs)"
  by pat_completeness auto
termination
  by (relation "measure (\<lambda>(old, s). length s)") (auto simp: Suc_le_eq)



text \<open>\<^verbatim>\<open>str(n)\<close> for a status code or a pull request number.\<close>

fun digit_char :: "nat \<Rightarrow> char" where
  "digit_char n = char_of (48 + n mod 10)"

function str_nat :: "nat \<Rightarrow> string" where
  "str_nat n = (if n < 10 then [digit_char n] else str_nat (n div 10) @ [digit_char n])"
  by pat_completeness auto
termination
  by (relation "measure id") auto

declare str_nat.simps [simp del]

definition str_int :: "int \<Rightarrow> string" where
  "str_int i = (if i < 0 then CHR ''-'' # str_nat (nat (- i)) else str_nat (nat i))"

subsection \<open>The regular expressions\<close>

text \<open>
  Python's \<^verbatim>\<open>.\<close> matches any character but a newline, and \<^verbatim>\<open>.*\<close> is greedy: the
  matcher tries the longest run first and gives characters back one at a time. The
  candidates for one \<^verbatim>\<open>.*\<close> at the start of \<open>s\<close>, in the order the matcher tries them:
\<close>

definition dot_star :: "string \<Rightarrow> string list" where
  "dot_star s = rev (prefixes (takeWhile (\<lambda>c. c \<noteq> CHR 0x0A) s))"

text \<open>The first candidate that a continuation accepts.\<close>

fun first_match :: "('a \<Rightarrow> 'b option) \<Rightarrow> 'a list \<Rightarrow> 'b option" where
  "first_match f [] = None"
| "first_match f (x # xs) = (case f x of Some y \<Rightarrow> Some y | None \<Rightarrow> first_match f xs)"

text \<open>
  \<^verbatim>\<open>binary_regex = re.compile(r'diff --git a\/(.*\.dmi) b\/.?')\<close>, matched at the start
  of \<open>s\<close>; the result is group 1. The trailing \<^verbatim>\<open>.?\<close> matches the empty string, so it
  never makes the match fail.
\<close>

definition binary_regex_match :: "string \<Rightarrow> string option" where
  "binary_regex_match s =
     (if prefix ''diff --git a/'' s then
        (let r = drop 13 s in
         first_match (\<lambda>q. if prefix ''.dmi b/'' (drop (length q) r) then Some (q @ ''.dmi'') else None)
           (dot_star r))
      else None)"

text \<open>\<^verbatim>\<open>binary_regex.search(line)\<close>: the leftmost position where the pattern matches.\<close>

fun binary_regex_search :: "string \<Rightarrow> string option" where
  "binary_regex_search [] = binary_regex_match []"
| "binary_regex_search (c # cs) =
     (case binary_regex_match (c # cs) of
        Some g \<Rightarrow> Some g
      | None \<Rightarrow> binary_regex_search cs)"

subsection \<open>The outside world\<close>

datatype error =
    TypeError       \<comment> \<open>\<^verbatim>\<open>hmac.compare_digest\<close> on a string that is not ASCII; a subscript on a value
                       that is no object; \<^verbatim>\<open>re.sub\<close> on a value that is no string\<close>
  | JSONDecodeError \<comment> \<open>\<^verbatim>\<open>json.loads\<close> on a body that is not JSON\<close>
  | KeyError        \<comment> \<open>a subscript with a key the object does not have\<close>
  | AttributeError  \<comment> \<open>\<^verbatim>\<open>.get\<close> on a value that is no object, \<^verbatim>\<open>.lower\<close> on one that is no string\<close>
  | MissingSchema   \<comment> \<open>\<^verbatim>\<open>requests.get\<close> on a value that is no string: no request is made\<close>

record response =
  status_code :: nat
  content :: string

text \<open>One entry per outbound call or log line, in the order the program makes them.\<close>

datatype event =
    Get string            \<comment> \<open>\<^verbatim>\<open>requests.get(url)\<close>\<close>
  | Post string string    \<comment> \<open>\<^verbatim>\<open>requests.post(url, data=body)\<close> to the comment API: url, comment text\<close>
  | Patch string string   \<comment> \<open>\<^verbatim>\<open>requests.patch(url, data=body)\<close>: url, comment text\<close>
  | Upload string string  \<comment> \<open>the POST to the image host: content hash, file bytes\<close>
  | Compare string string \<comment> \<open>\<^verbatim>\<open>icons.compare_two_icon_files(path_a, path_b)\<close>\<close>
  | Log string            \<comment> \<open>\<^verbatim>\<open>log_message(message)\<close>\<close>

text \<open>A review comment as the comment API lists it.\<close>

record comment =
  comment_url :: string    \<comment> \<open>\<^verbatim>\<open>comment['url']\<close>\<close>
  user_login :: string     \<comment> \<open>\<^verbatim>\<open>comment['user']['login']\<close>\<close>
  comment_body :: string
  thread :: string         \<comment> \<open>the comments URL of the issue it belongs to\<close>

text \<open>One entry of the mapping \<^verbatim>\<open>icons.compare_two_icon_files\<close> returns: the images are
  their PNG bytes.\<close>

record sub_image =
  status :: string
  img_a :: "string option"
  img_a_hash :: string
  img_b :: "string option"
  img_b_hash :: string

text \<open>\<^verbatim>\<open>pull_request.base\<close> and \<^verbatim>\<open>pull_request.head\<close> of the event, as \<^verbatim>\<open>check_icons\<close>
  and \<^verbatim>\<open>post_comment\<close> use them: the three values they read, as \<^verbatim>\<open>format\<close> prints them.\<close>

record side =
  ref :: string
  repo_html_url :: string
  repo_full_name :: string

text \<open>What \<^verbatim>\<open>json.loads\<close> returns. An object is the list of its keys and values, each key
  once. A number written with a fraction or an exponent is a float; it is held as the text
  \<^verbatim>\<open>str()\<close> prints for it, which names it.\<close>

datatype json =
    JNull
  | JBool bool
  | JNum int
  | JFloat string
  | JStr string
  | JArr "json list"
  | JObj "(string \<times> json) list"

text \<open>The \<^verbatim>\<open>Config\<close> object, and the module's \<^verbatim>\<open>DEBUG\<close> flag.\<close>

record config =
  github_secret :: string
  github_user :: string
  github_auth :: string
  upload_api_url :: string
  upload_api_key :: string
  ignore_list :: "string list"
  DEBUG :: bool

text \<open>
  What the libraries and the remote services answer. None of this is code of the
  module; each field stands for one capability it calls:
  \<^item> \<open>hexdigest key msg\<close> is \<^verbatim>\<open>hmac.new(key, msg, sha1).hexdigest()\<close>;
  \<^item> \<open>json_loads\<close> is \<^verbatim>\<open>json.loads\<close>;
  \<^item> \<open>py_repr\<close> is \<^verbatim>\<open>str()\<close> on a list or an object, as \<^verbatim>\<open>format\<close> prints one;
  \<^item> \<open>http_get\<close> answers a GET of a diff or of a raw file; every request is answered
    with a status (a request that cannot be delivered at all is outside the model);
  \<^item> \<open>image_host url key file\<close> is \<^verbatim>\<open>requests.post(url, data, files).json()['url']\<close>;
  \<^item> \<open>compare_two_icon_files\<close> reads the two scratch files and returns its mapping in
    iteration order;
  \<^item> \<open>list_status\<close> is the status the comment API answers a listing with, and
    \<open>write_fault\<close> is \<open>Some s\<close> when it refuses to create or update with status \<open>s\<close>.
\<close>

record env =
  hexdigest :: "string \<Rightarrow> string \<Rightarrow> string"
  json_loads :: "string \<Rightarrow> error + json"
  py_repr :: "json \<Rightarrow> string"
  http_get :: "string \<Rightarrow> response"
  image_host :: "string \<Rightarrow> string \<Rightarrow> string \<Rightarrow> error + string"
  compare_two_icon_files :: "(string \<rightharpoonup> string) \<Rightarrow> string \<Rightarrow> string \<Rightarrow> (string \<times> sub_image) list"
  list_status :: nat
  write_fault :: "nat option"

text \<open>What the program changes: the scratch files, the cache \<^verbatim>\<open>DB\<close>, the comments on
  the hosting platform, and the trace.\<close>

record world =
  fs :: "string \<rightharpoonup> string"
  db :: "string \<rightharpoonup> string"
  comments :: "comment list"
  trace :: "event list"

definition emit :: "event \<Rightarrow> world \<Rightarrow> world" where
  "emit e w = w\<lparr>trace := trace w @ [e]\<rparr>"

definition log_message :: "string \<Rightarrow> world \<Rightarrow> world" where
  "log_message message w = emit (Log message) w"

subsection \<open>check_diff\<close>

text \<open>The loop of \<^verbatim>\<open>check_diff\<close> over the lines, with its accumulator.\<close>

fun scan_lines :: "string list \<Rightarrow> string list \<Rightarrow> string list" where
  "scan_lines [] icons_with_diff = icons_with_diff"
| "scan_lines (line # diff) icons_with_diff =
     (case binary_regex_search line of
        None \<Rightarrow> scan_lines diff icons_with_diff
      | Some g \<Rightarrow> scan_lines diff (icons_with_diff @ [g]))"

definition check_diff :: "env \<Rightarrow> string \<Rightarrow> world \<Rightarrow> string list option \<times> world" where
  "check_diff e url w =
     (let req = http_get e url; w' = emit (Get url) w in
      if status_code req = 404 then (None, w')
      else (Some (scan_lines (split_nl (content req)) []), w'))"

subsection \<open>compare_secret\<close>

definition is_ascii :: "string \<Rightarrow> bool" where
  "is_ascii s = list_all (\<lambda>c. of_char c < (128::nat)) s"

text \<open>\<^verbatim>\<open>hmac.compare_digest(a, b)\<close> on two \<^verbatim>\<open>str\<close>: it raises \<^verbatim>\<open>TypeError\<close> unless both
  are ASCII.\<close>

definition compare_digest :: "string \<Rightarrow> string \<Rightarrow> error + bool" where
  "compare_digest a b = (if is_ascii a \<and> is_ascii b then Inr (a = b) else Inl TypeError)"

definition compare_secret :: "config \<Rightarrow> env \<Rightarrow> string option \<Rightarrow> string \<Rightarrow> error + bool" where
  "compare_secret cfg e secret_to_compare payload =
     (case secret_to_compare of
        None \<Rightarrow> Inr False
      | Some s \<Rightarrow>
          (let this_secret = hexdigest e (github_secret cfg) payload;
               s' = str_remove ''sha1='' s
           in compare_digest s' this_secret))"

subsection \<open>upload_image\<close>

text \<open>
  Modelled from the spec: the persistent cache \<^verbatim>\<open>database.DBCore\<close> is not part of the
  module; \<^verbatim>\<open>DB.get_url(hash)\<close> is the lookup \<open>db w hash\<close> and \<^verbatim>\<open>DB.set_url(hash, url)\<close>
  stores one entry.

  An exception leaves the effects made before it in place, so every operation that can
  raise returns the world next to its result or error. The POST to the image host is
  recorded with the content hash it was made for.
\<close>

definition upload_image ::
  "config \<Rightarrow> env \<Rightarrow> string \<Rightarrow> string \<Rightarrow> bool \<Rightarrow> world \<Rightarrow> (error + string option) \<times> world" where
  "upload_image cfg e file_to_upload img_hash upload w =
     (if \<not> upload then (Inr None, w)
      else case db w img_hash of
        Some has_link \<Rightarrow> (Inr (Some has_link), w)
      | None \<Rightarrow>
          (let w1 = emit (Upload img_hash file_to_upload) w in
           case image_host e (upload_api_url cfg) (upload_api_key cfg) file_to_upload of
             Inl err \<Rightarrow> (Inl err, w1)
           | Inr url \<Rightarrow> (Inr (Some url), w1\<lparr>db := (db w1)(img_hash \<mapsto> url)\<rparr>)))"

subsection \<open>The comment API\<close>

text \<open>
  Modelled from the spec: the hosting platform's comment API (GET the comments list,
  POST to create, PATCH the found comment's own URL to update). A listing is answered
  with \<open>list_status\<close>; a write is refused with the status in \<open>write_fault\<close>, or else
  carried out: a created comment is authored by the authenticated identity, an updated
  one keeps its author and its place. Both return the status and the \<^verbatim>\<open>html_url\<close> of
  the answer.
\<close>

definition api_list :: "env \<Rightarrow> string \<Rightarrow> world \<Rightarrow> nat \<times> comment list" where
  "api_list e api_url w = (list_status e, filter (\<lambda>c. thread c = api_url) (comments w))"

definition api_create :: "config \<Rightarrow> env \<Rightarrow> string \<Rightarrow> string \<Rightarrow> world \<Rightarrow> (nat \<times> string) \<times> world" where
  "api_create cfg e api_url body w =
     (case write_fault e of
        Some s \<Rightarrow> ((s, []), w)
      | None \<Rightarrow>
          (let u = api_url @ ''/'' @ str_nat (length (comments w)) in
           ((201, u),
            w\<lparr>comments := comments w @
               [\<lparr>comment_url = u, user_login = github_user cfg, comment_body = body,
                 thread = api_url\<rparr>]\<rparr>)))"

definition api_update :: "env \<Rightarrow> string \<Rightarrow> string \<Rightarrow> world \<Rightarrow> (nat \<times> string) \<times> world" where
  "api_update e url body w =
     (case write_fault e of
        Some s \<Rightarrow> ((s, []), w)
      | None \<Rightarrow>
          if list_ex (\<lambda>c. comment_url c = url) (comments w) then
            ((200, url),
             w\<lparr>comments :=
                 map (\<lambda>c. if comment_url c = url then c\<lparr>comment_body := body\<rparr> else c) (comments w)\<rparr>)
          else ((404, []), w))"

subsection \<open>check_comments and post_comment\<close>

definition check_comments :: "config \<Rightarrow> env \<Rightarrow> string \<Rightarrow> world \<Rightarrow> string option \<times> world" where
  "check_comments cfg e api_url w =
     (let (status, listed) = api_list e api_url w; w' = emit (Get api_url) w in
      if status = 200 then
        (map_option comment_url (find (\<lambda>c. user_login c = github_user cfg) listed), w')
      else (None, w'))"

text \<open>The comment text travels as \<^verbatim>\<open>json.dumps({'body': ...})\<close>; the trace and the API
  model carry the text itself.\<close>

definition post_comment :: "config \<Rightarrow> env \<Rightarrow> string \<Rightarrow> string list \<Rightarrow> side \<Rightarrow> world \<Rightarrow> world" where
  "post_comment cfg e issue message_dict base_side w =
     (let repo_name = repo_full_name base_side;
          github_api_url = issue @ ''/comments'';
          (comment_id, w1) = check_comments cfg e github_api_url w;
          body = join_nl message_dict;
          ((status, html_url), w2) =
            (case comment_id of
               None \<Rightarrow> api_create cfg e github_api_url body (emit (Post github_api_url body) w1)
             | Some cid \<Rightarrow>
                 api_update e cid body
                   (emit (Patch cid body)
                     (log_message (''['' @ repo_name @ ''] Found a comment from us on the pull request; '' @ cid) w1)))
      in if status = 201 \<or> status = 200 then
           log_message (''['' @ repo_name @ ''] Sucessefully commented icon diff on: '' @ html_url) w2
         else
           log_message (''Error code: '' @ str_nat status)
             (log_message (''['' @ repo_name @ ''] Failed to comment on: '' @ issue) w2))"

subsection \<open>check_icons\<close>

text \<open>
  \<^verbatim>\<open>re.sub(pattern, '\\1', s)\<close>: the string is walked left to right; where the pattern
  matches, the match is replaced by its group 1 and the walk goes on behind the match,
  elsewhere the character is kept. A matcher returns group 1 and the length of the
  match; both patterns below consume at least one character. \<open>skip\<close> counts the
  characters of a match still to be passed over.
\<close>

fun re_sub :: "(string \<Rightarrow> (string \<times> nat) option) \<Rightarrow> nat \<Rightarrow> string \<Rightarrow> string" where
  "re_sub m skip [] = []"
| "re_sub m (Suc skip) (c # cs) = re_sub m skip cs"
| "re_sub m 0 (c # cs) =
     (case m (c # cs) of
        Some (g, n) \<Rightarrow> g @ re_sub m (n - 1) cs
      | None \<Rightarrow> c # re_sub m 0 cs)"

text \<open>The pattern \<^verbatim>\<open>.*\/(.*)\.dmi\<close> at the start of \<open>s\<close>.\<close>

definition i_name_match :: "string \<Rightarrow> (string \<times> nat) option" where
  "i_name_match s =
     first_match
       (\<lambda>p. if prefix ''/'' (drop (length p) s) then
              (let t = drop (Suc (length p)) s in
               first_match
                 (\<lambda>g. if prefix ''.dmi'' (drop (length g) t)
                      then Some (g, length p + 1 + length g + 4) else None)
                 (dot_star t))
            else None)
       (dot_star s)"

text \<open>The pattern \<^verbatim>\<open>.*\/issues\/(\d*)\<close> at the start of \<open>s\<close>.\<close>

definition is_digit :: "char \<Rightarrow> bool" where
  "is_digit c = ((48::nat) \<le> of_char c \<and> of_char c \<le> (57::nat))"

definition issue_number_match :: "string \<Rightarrow> (string \<times> nat) option" where
  "issue_number_match s =
     first_match
       (\<lambda>p. if prefix ''/issues/'' (drop (length p) s) then
              (let g = takeWhile is_digit (drop (length p + 8) s) in
               Some (g, length p + 8 + length g))
            else None)
       (dot_star s)"

text \<open>
  The scratch directory is a flat map from path to content; directories are not
  modelled, so \<^verbatim>\<open>os.makedirs('./icon_dump')\<close> has no counterpart and a write always
  succeeds. The empty path names no file.
\<close>

definition write_file :: "string \<Rightarrow> string \<Rightarrow> world \<Rightarrow> world" where
  "write_file path data w = w\<lparr>fs := (fs w)(path \<mapsto> data)\<rparr>"

definition path_exists :: "world \<Rightarrow> string \<Rightarrow> bool" where
  "path_exists w path = (path \<noteq> [] \<and> fs w path \<noteq> None)"

text \<open>\<^verbatim>\<open>os.remove(path)\<close> of a file known to exist.\<close>

definition remove_file :: "string \<Rightarrow> world \<Rightarrow> world" where
  "remove_file path w = w\<lparr>fs := (fs w)(path := None)\<rparr>"

text \<open>\<^verbatim>\<open>try: os.remove(path) except OSError: pass\<close>, and
  \<^verbatim>\<open>if os.path.exists(path): os.remove(path)\<close>: both remove the file when it exists and do
  nothing otherwise.\<close>

definition remove_if_exists :: "string \<Rightarrow> world \<Rightarrow> world" where
  "remove_if_exists path w = (if path_exists w path then remove_file path w else w)"

text \<open>One side of a table row: the block under \<^verbatim>\<open>if img_a:\<close> and its \<^verbatim>\<open>else\<close>.\<close>

definition image_link ::
  "config \<Rightarrow> env \<Rightarrow> bool \<Rightarrow> string \<Rightarrow> string \<Rightarrow> string option \<Rightarrow> string \<Rightarrow> world
     \<Rightarrow> (error + string) \<times> world" where
  "image_link cfg e send_message key path img img_hash w =
     (case img of
        None \<Rightarrow> (Inr ''![]()'', w)
      | Some png \<Rightarrow>
          (case upload_image cfg e png img_hash send_message (write_file path png w) of
             (Inl err, w') \<Rightarrow> (Inl err, w')
           | (Inr url, w') \<Rightarrow>
               (Inr (''!['' @ key @ '']('' @ (case url of None \<Rightarrow> ''None'' | Some u \<Rightarrow> u) @ '')''),
                if DEBUG cfg then w' else remove_file path w')))"

text \<open>The loop \<^verbatim>\<open>for key in this_dict\<close>, appending to \<open>msg\<close>.\<close>

fun render_rows ::
  "config \<Rightarrow> env \<Rightarrow> bool \<Rightarrow> (string \<times> sub_image) list \<Rightarrow> string list \<Rightarrow> world
     \<Rightarrow> (error + string list) \<times> world" where
  "render_rows cfg e send_message [] msg w = (Inr msg, w)"
| "render_rows cfg e send_message ((key, entry) # rest) msg w =
     (if status entry = ''Equal'' then render_rows cfg e send_message rest msg w
      else
        case image_link cfg e send_message key (''./icon_dump/old_'' @ key @ ''.png'')
               (img_a entry) (img_a_hash entry) w of
          (Inl err, w1) \<Rightarrow> (Inl err, w1)
        | (Inr url_a, w1) \<Rightarrow>
            (case image_link cfg e send_message key (''./icon_dump/new_'' @ key @ ''.png'')
                    (img_b entry) (img_b_hash entry) w1 of
               (Inl err, w2) \<Rightarrow> (Inl err, w2)
             | (Inr url_b, w2) \<Rightarrow>
                 render_rows cfg e send_message rest
                   (msg @ [key @ ''|'' @ url_a @ ''|'' @ url_b @ ''|'' @ status entry]) w2))"

text \<open>
  The body of the loop \<^verbatim>\<open>for icon in icons_with_diff\<close>. Modelled from the spec:
  \<^verbatim>\<open>icons.compare_two_icon_files\<close> is not part of the module; it is the \<open>env\<close>'s function
  of the scratch files and the two paths, an empty mapping being its falsy result.
\<close>

definition check_icon ::
  "config \<Rightarrow> env \<Rightarrow> side \<Rightarrow> side \<Rightarrow> string \<Rightarrow> bool \<Rightarrow> string \<Rightarrow> string list \<Rightarrow> world
     \<Rightarrow> (error + string list) \<times> world" where
  "check_icon cfg e base_side head_side issue send_message icon msgs w =
     (let i_name = re_sub i_name_match 0 icon;
          icon_path_a = ''./icon_dump/old_'' @ i_name @ ''.dmi'';
          icon_path_b = ''./icon_dump/new_'' @ i_name @ ''.dmi'';
          url_a = repo_html_url base_side @ ''/blob/'' @ ref base_side @ ''/'' @ icon;
          url_b = repo_html_url head_side @ ''/blob/'' @ ref head_side @ ''/'' @ icon;
          response_a = http_get e url_a;
          response_b = http_get e url_b;
          w1 = emit (Get url_b) (emit (Get url_a) w);
          (icon_path_a, w2) =
            (if status_code response_a = 200 then
               (icon_path_a, write_file icon_path_a (content response_a) w1)
             else if status_code response_a = 404 then ([], w1)
             else (icon_path_a, w1))
      in if status_code response_b \<noteq> 200 \<and> status_code response_b = 404 then
           (Inr msgs, remove_if_exists icon_path_a w2)
         else
           (let w3 = (if status_code response_b = 200
                      then write_file icon_path_b (content response_b) w2 else w2);
                this_dict = compare_two_icon_files e (fs w3) icon_path_a icon_path_b;
                w4 = emit (Compare icon_path_a icon_path_b) w3
            in if this_dict = [] then (Inr msgs, w4)
               else
                 case render_rows cfg e send_message this_dict
                        [''<details><summary>'' @ icon @ ''</summary>'' @ [CHR 0x0A],
                         ''Key | Old | New | Status'', ''--- | --- | --- | ---''] w4 of
                   (Inl err, w5) \<Rightarrow> (Inl err, w5)
                 | (Inr rows, w5) \<Rightarrow>
                     (let msg = rows @ [''</details>''];
                          msgs' = (if length msg > 4 then msgs @ [join_nl msg] else msgs)
                      in if DEBUG cfg then
                           (Inr msgs',
                            write_file
                              (''icon_dump/'' @ i_name @ ''_'' @ re_sub issue_number_match 0 issue @ ''.log'')
                              (join_nl msg) w5)
                         else
                           (Inr msgs', remove_if_exists icon_path_b (remove_if_exists icon_path_a w5)))))"

fun icons_loop ::
  "config \<Rightarrow> env \<Rightarrow> side \<Rightarrow> side \<Rightarrow> string \<Rightarrow> bool \<Rightarrow> string list \<Rightarrow> string list \<Rightarrow> world
     \<Rightarrow> (error + string list) \<times> world" where
  "icons_loop cfg e base_side head_side issue send_message [] msgs w = (Inr msgs, w)"
| "icons_loop cfg e base_side head_side issue send_message (icon # rest) msgs w =
     (case check_icon cfg e base_side head_side issue send_message icon msgs w of
        (Inl err, w') \<Rightarrow> (Inl err, w')
      | (Inr msgs', w') \<Rightarrow> icons_loop cfg e base_side head_side issue send_message rest msgs' w')"

definition check_icons ::
  "config \<Rightarrow> env \<Rightarrow> string list \<Rightarrow> side \<Rightarrow> side \<Rightarrow> string \<Rightarrow> bool \<Rightarrow> world
     \<Rightarrow> (error + unit) \<times> world" where
  "check_icons cfg e icons_with_diff base_side head_side issue send_message w =
     (case icons_loop cfg e base_side head_side issue send_message icons_with_diff
             [''Icons with diff:''] w of
        (Inl err, w') \<Rightarrow> (Inl err, w')
      | (Inr msgs, w') \<Rightarrow>
          if send_message \<and> length msgs > 1
          then (Inr (), post_comment cfg e issue msgs base_side w')
          else (Inr (), w'))"

subsection \<open>Handler.render_POST\<close>

record request =
  req_content :: string             \<comment> \<open>\<^verbatim>\<open>request.content.getvalue()\<close>\<close>
  req_signature :: "string option"  \<comment> \<open>\<^verbatim>\<open>request.getHeader('X-Hub-Signature')\<close>\<close>
  req_event :: "string option"      \<comment> \<open>\<^verbatim>\<open>request.getHeader('X-GitHub-Event')\<close>\<close>

text \<open>What the handler hands back: the code it set and the body it returned.\<close>

record reply =
  code :: nat
  reply_body :: string


text \<open>
  The event is what \<^verbatim>\<open>json.loads\<close> returned, and every field is read where the source
  reads it: \<^verbatim>\<open>v[key]\<close> raises on a missing key and on a value that is no object,
  \<^verbatim>\<open>v.get(key)\<close> gives \<^verbatim>\<open>None\<close> for a missing key and raises on a value that is no object,
  \<^verbatim>\<open>v.lower()\<close> raises on a value that is no string, and \<^verbatim>\<open>format\<close> prints a value with
  \<^verbatim>\<open>str()\<close>.
\<close>


definition subscript :: "json \<Rightarrow> string \<Rightarrow> error + json" where
  "subscript v key =
     (case v of
        JObj kvs \<Rightarrow> (case map_of kvs key of None \<Rightarrow> Inl KeyError | Some x \<Rightarrow> Inr x)
      | _ \<Rightarrow> Inl TypeError)"

definition dict_get :: "json \<Rightarrow> string \<Rightarrow> error + json" where
  "dict_get v key =
     (case v of
        JObj kvs \<Rightarrow> (case map_of kvs key of None \<Rightarrow> Inr JNull | Some x \<Rightarrow> Inr x)
      | _ \<Rightarrow> Inl AttributeError)"


definition py_str :: "env \<Rightarrow> json \<Rightarrow> string" where
  "py_str e v =
     (case v of
        JStr s \<Rightarrow> s
      | JNull \<Rightarrow> ''None''
      | JBool b \<Rightarrow> (if b then ''True'' else ''False'')
      | JNum n \<Rightarrow> str_int n
      | JFloat s \<Rightarrow> s
      | _ \<Rightarrow> py_repr e v)"

text \<open>A read that may raise, followed by the rest of the function: when the read raises,
  the function raises with the world as it is.\<close>

definition raise_or ::
  "error + 'a \<Rightarrow> world \<Rightarrow> ('a \<Rightarrow> (error + 'b) \<times> world) \<Rightarrow> (error + 'b) \<times> world" where
  "raise_or r w k = (case r of Inl err \<Rightarrow> (Inl err, w) | Inr x \<Rightarrow> k x)"

text \<open>
  \<^verbatim>\<open>check_icons\<close> as the handler calls it, on the \<^verbatim>\<open>base\<close> and \<^verbatim>\<open>head\<close> objects and the
  \<^verbatim>\<open>issue_url\<close> of the event. The reads of the source are made in its order, around the
  loop and \<^verbatim>\<open>post_comment\<close> as defined above: \<^verbatim>\<open>base.get('repo').get('html_url')\<close> and the
  same for \<^verbatim>\<open>head\<close> before anything else, \<^verbatim>\<open>re.sub\<close> on \<^verbatim>\<open>issue_url\<close> when \<^verbatim>\<open>DEBUG\<close> is set,
  \<^verbatim>\<open>base['ref']\<close> before the first fetch, \<^verbatim>\<open>head['ref']\<close> after the first fetch of the base
  side, and \<^verbatim>\<open>base['repo']['full_name']\<close> when \<^verbatim>\<open>post_comment\<close> is entered. The values read
  are printed by \<^verbatim>\<open>format\<close>; the loop does not read the full name of a side.
\<close>

definition check_icons_untyped ::
  "config \<Rightarrow> env \<Rightarrow> string list \<Rightarrow> json \<Rightarrow> json \<Rightarrow> json \<Rightarrow> bool \<Rightarrow> world
     \<Rightarrow> (error + unit) \<times> world" where
  "check_icons_untyped cfg e icons_with_diff base_obj head_obj issue_obj send_message w =
     raise_or (dict_get base_obj ''repo'') w (\<lambda>base_repo.
     raise_or (dict_get base_repo ''html_url'') w (\<lambda>base_repo_url.
     raise_or (dict_get head_obj ''repo'') w (\<lambda>head_repo.
     raise_or (dict_get head_repo ''html_url'') w (\<lambda>head_repo_url.
       if DEBUG cfg \<and> (case issue_obj of JStr s \<Rightarrow> False | _ \<Rightarrow> True) then (Inl TypeError, w)
       else
         case icons_with_diff of
           [] \<Rightarrow> (Inr (), w)
         | icon # rest \<Rightarrow>
             raise_or (subscript base_obj ''ref'') w (\<lambda>base_ref.
               let base_side = \<lparr>ref = py_str e base_ref, repo_html_url = py_str e base_repo_url,
                                 repo_full_name = []\<rparr>
               in case subscript head_obj ''ref'' of
                    Inl err \<Rightarrow>
                      (Inl err,
                       emit (Get (repo_html_url base_side @ ''/blob/'' @ ref base_side @ ''/'' @ icon)) w)
                  | Inr head_ref \<Rightarrow>
                      (let head_side = \<lparr>ref = py_str e head_ref, repo_html_url = py_str e head_repo_url,
                                         repo_full_name = []\<rparr>
                       in case icons_loop cfg e base_side head_side (py_str e issue_obj) send_message
                                 icons_with_diff [''Icons with diff:''] w of
                            (Inl err, w') \<Rightarrow> (Inl err, w')
                          | (Inr msgs, w') \<Rightarrow>
                              if send_message \<and> length msgs > 1 then
                                raise_or (subscript base_obj ''repo'') w' (\<lambda>repo.
                                raise_or (subscript repo ''full_name'') w' (\<lambda>full_name.
                                  (Inr (),
                                   post_comment cfg e (py_str e issue_obj) msgs
                                     (base_side\<lparr>repo_full_name := py_str e full_name\<rparr>) w')))
                              else (Inr (), w')))))))"


subsection \<open>Concrete scenarios\<close>

text \<open>A world with nothing in it, and an environment where every GET answers 404, the
  image host answers with a URL made from the file, and the comment API works.\<close>

definition empty_world :: world where
  "empty_world = \<lparr>fs = Map.empty, db = Map.empty, comments = [], trace = []\<rparr>"

definition quiet_env :: env where
  "quiet_env =
     \<lparr>hexdigest = (\<lambda>key msg. ''da39a3ee5e6b4b0d3255bfef95601890afd80709''),
      json_loads = (\<lambda>body. Inl JSONDecodeError),
      py_repr = (\<lambda>v. ''...''),
      http_get = (\<lambda>url. \<lparr>status_code = 404, content = []\<rparr>),
      image_host = (\<lambda>url key file. Inr (''https://img.example/'' @ file)),
      compare_two_icon_files = (\<lambda>files path_a path_b. []),
      list_status = 200,
      write_fault = None\<rparr>"

definition two_sprites_diff :: string where
  "two_sprites_diff =
     ''diff --git a/icons/a.dmi b/icons/a.dmi\<newline>Binary files differ\<newline>diff --git a/code/x.dm b/code/x.dm\<newline>diff --git a/icons/b.dmi b/icons/b.dmi\<newline>diff --git a/icons/a.dmi b/icons/a.dmi''"

text \<open>The diff resource answers with the given status and the text above.\<close>

definition diff_env :: "nat \<Rightarrow> env" where
  "diff_env s = quiet_env\<lparr>http_get := (\<lambda>url. \<lparr>status_code = s, content = two_sprites_diff\<rparr>)\<rparr>"

text \<open>The digest is what \<^verbatim>\<open>hexdigest()\<close> prints: lowercase hexadecimal digits.\<close>

definition hex_string :: "string \<Rightarrow> bool" where
  "hex_string s = list_all (\<lambda>c. c \<in> set ''0123456789abcdef'') s"

text \<open>A configuration, a request body, and an environment whose \<open>hexdigest\<close> holds the
  HMAC-SHA1 of that body under three keys: the configured secret, the same secret followed
  by a zero byte (HMAC pads a short key with zero bytes, so the digest is the same), and
  another secret.\<close>

definition bot_config :: config where
  "bot_config =
     \<lparr>github_secret = ''s3cret'', github_user = ''iconbot'', github_auth = ''token'',
      upload_api_url = ''https://img.example/upload'', upload_api_key = ''k'',
      ignore_list = [''dependabot''], DEBUG = False\<rparr>"

definition opened_body :: string where
  "opened_body = ''{\"action\": \"opened\"}''"

definition padded_secret :: string where
  "padded_secret = ''s3cret'' @ [CHR 0x00]"

definition signing_env :: env where
  "signing_env = quiet_env\<lparr>hexdigest := (\<lambda>key msg.
       if key = ''s3cret'' \<or> key = padded_secret
       then ''a8e374e6882496c8694b876c20ddcc90825c2d9e''
       else ''03a77618d556502b05dc62757709aeea2aa99b9f'')\<rparr>"

text \<open>The number of POSTs to the image host made for one content hash.\<close>

fun is_upload_of :: "string \<Rightarrow> event \<Rightarrow> bool" where
  "is_upload_of h (Upload h' file) = (h' = h)"
| "is_upload_of h ev = False"

definition upload_count :: "string \<Rightarrow> world \<Rightarrow> nat" where
  "upload_count h w = length (filter (is_upload_of h) (trace w))"

text \<open>The number of those POSTs that the image host answered with a URL. The answer to a
  POST is the \<open>env\<close>'s function of the file sent.\<close>

fun is_answered_upload_of :: "config \<Rightarrow> env \<Rightarrow> string \<Rightarrow> event \<Rightarrow> bool" where
  "is_answered_upload_of cfg e h (Upload h' file) =
     (h' = h \<and> (case image_host e (upload_api_url cfg) (upload_api_key cfg) file of
                   Inl err \<Rightarrow> False | Inr url \<Rightarrow> True))"
| "is_answered_upload_of cfg e h ev = False"

definition answered_count :: "config \<Rightarrow> env \<Rightarrow> string \<Rightarrow> world \<Rightarrow> nat" where
  "answered_count cfg e h w = length (filter (is_answered_upload_of cfg e h) (trace w))"

text \<open>Any number of sub-images sent through \<^verbatim>\<open>upload_image\<close> one after the other, each
  with its file and its content hash, over the runs of the process. A call that raises
  ends the delivery it was made for; the next call is made with the cache as it is.\<close>

fun upload_each ::
  "config \<Rightarrow> env \<Rightarrow> (string \<times> string) list \<Rightarrow> world \<Rightarrow> (error + string option) list \<times> world" where
  "upload_each cfg e [] w = ([], w)"
| "upload_each cfg e ((file, h) # rest) w =
     (case upload_image cfg e file h True w of
        (r, w') \<Rightarrow> (case upload_each cfg e rest w' of (rs, w'') \<Rightarrow> (r # rs, w'')))"

text \<open>An image host whose answers carry no url.\<close>

definition refusing_host_env :: env where
  "refusing_host_env = quiet_env\<lparr>image_host := (\<lambda>url key file. Inl KeyError)\<rparr>"

text \<open>The comments on an issue that the bot identity authored, and the comment API
  writes (POST and PATCH) of a trace.\<close>

definition bot_comments :: "config \<Rightarrow> string \<Rightarrow> world \<Rightarrow> comment list" where
  "bot_comments cfg issue w =
     filter (\<lambda>c. thread c = issue @ ''/comments'' \<and> user_login c = github_user cfg) (comments w)"

definition bot_count :: "config \<Rightarrow> string \<Rightarrow> world \<Rightarrow> nat" where
  "bot_count cfg issue w = length (bot_comments cfg issue w)"

fun is_write :: "event \<Rightarrow> bool" where
  "is_write (Post url body) = True"
| "is_write (Patch url body) = True"
| "is_write ev = False"

definition comment_writes :: "world \<Rightarrow> event list" where
  "comment_writes w = filter is_write (trace w)"

text \<open>An issue that carries one comment of the bot, and a comment API that answers a
  listing with 500.\<close>

definition issue7 :: string where
  "issue7 = ''https://api.github.com/repos/o/r/issues/7''"

definition commented_world :: world where
  "commented_world =
     empty_world\<lparr>comments :=
       [\<lparr>comment_url = ''https://api.github.com/repos/o/r/issues/comments/1'',
         user_login = ''iconbot'', comment_body = ''Icons with diff:'',
         thread = ''https://api.github.com/repos/o/r/issues/7/comments''\<rparr>]\<rparr>"

definition failing_list_env :: env where
  "failing_list_env = quiet_env\<lparr>list_status := 500\<rparr>"

definition base_side0 :: side where
  "base_side0 = \<lparr>ref = ''master'', repo_html_url = ''https://github.com/o/r'', repo_full_name = ''o/r''\<rparr>"

text \<open>Names for the parts of one pass of the loop of \<^verbatim>\<open>check_icons\<close>: the URL fetched for a
  side, the two scratch paths, the path handed to the comparison for the base side (empty
  after a 404), the world after the two fetches with the base side staged, and the world
  with the head side staged as well.\<close>

definition blob_url :: "side \<Rightarrow> string \<Rightarrow> string" where
  "blob_url s icon = repo_html_url s @ ''/blob/'' @ ref s @ ''/'' @ icon"

definition scratch_old :: "string \<Rightarrow> string" where
  "scratch_old icon = ''./icon_dump/old_'' @ re_sub i_name_match 0 icon @ ''.dmi''"

definition scratch_new :: "string \<Rightarrow> string" where
  "scratch_new icon = ''./icon_dump/new_'' @ re_sub i_name_match 0 icon @ ''.dmi''"

definition base_path :: "env \<Rightarrow> side \<Rightarrow> string \<Rightarrow> string" where
  "base_path e b icon =
     (if status_code (http_get e (blob_url b icon)) = 404 then [] else scratch_old icon)"

definition fetched :: "env \<Rightarrow> side \<Rightarrow> side \<Rightarrow> string \<Rightarrow> world \<Rightarrow> world" where
  "fetched e b h icon w =
     (let w1 = emit (Get (blob_url h icon)) (emit (Get (blob_url b icon)) w) in
      if status_code (http_get e (blob_url b icon)) = 200
      then write_file (scratch_old icon) (content (http_get e (blob_url b icon))) w1 else w1)"

definition staged :: "env \<Rightarrow> side \<Rightarrow> side \<Rightarrow> string \<Rightarrow> world \<Rightarrow> world" where
  "staged e b h icon w =
     (if status_code (http_get e (blob_url h icon)) = 200
      then write_file (scratch_new icon) (content (http_get e (blob_url h icon))) (fetched e b h icon w)
      else fetched e b h icon w)"

definition block_header :: "string \<Rightarrow> string list" where
  "block_header icon =
     [''<details><summary>'' @ icon @ ''</summary>'' @ [CHR 0x0A],
      ''Key | Old | New | Status'', ''--- | --- | --- | ---'']"

definition tidy :: "config \<Rightarrow> env \<Rightarrow> side \<Rightarrow> string \<Rightarrow> string \<Rightarrow> string list \<Rightarrow> world \<Rightarrow> world" where
  "tidy cfg e b issue icon msg w =
     (if DEBUG cfg then
        write_file (''icon_dump/'' @ re_sub i_name_match 0 icon @ ''_'' @ re_sub issue_number_match 0 issue @ ''.log'')
          (join_nl msg) w
      else remove_if_exists (scratch_new icon) (remove_if_exists (base_path e b icon) w))"

fun is_upload :: "event \<Rightarrow> bool" where
  "is_upload (Upload h f) = True"
| "is_upload ev = False"

definition not_equal :: "string \<times> sub_image \<Rightarrow> bool" where
  "not_equal entry = (status (snd entry) \<noteq> ''Equal'')"

text \<open>A table row from an entry and its two image links, and the calls one pass of the
  loop makes when nothing is uploaded: the two fetches, and the comparison unless the
  head side answered 404.\<close>

definition table_row :: "(string \<times> sub_image) \<times> (string \<times> string) \<Rightarrow> string" where
  "table_row r =
     fst (fst r) @ ''|'' @ fst (snd r) @ ''|'' @ snd (snd r) @ ''|'' @ status (snd (fst r))"

definition icon_io :: "env \<Rightarrow> side \<Rightarrow> side \<Rightarrow> string \<Rightarrow> event list" where
  "icon_io e b h icon =
     [Get (blob_url b icon), Get (blob_url h icon)] @
     (if status_code (http_get e (blob_url h icon)) = 404 then []
      else [Compare (base_path e b icon) (scratch_new icon)])"

text \<open>A pull request from a fork, and the two URLs it makes for \<^verbatim>\<open>icons/test.dmi\<close>.\<close>

definition head_side0 :: side where
  "head_side0 = \<lparr>ref = ''feature'', repo_html_url = ''https://github.com/fork/r'', repo_full_name = ''fork/r''\<rparr>"

definition base_blob0 :: string where
  "base_blob0 = ''https://github.com/o/r/blob/master/icons/test.dmi''"

definition head_blob0 :: string where
  "head_blob0 = ''https://github.com/fork/r/blob/feature/icons/test.dmi''"

text \<open>The file exists on the base side and is deleted on the head side.\<close>

definition deletion_env :: env where
  "deletion_env = quiet_env\<lparr>http_get := (\<lambda>url.
       if url = base_blob0 then \<lparr>status_code = 200, content = ''DMI-old''\<rparr>
       else \<lparr>status_code = 404, content = []\<rparr>)\<rparr>"

text \<open>Both sides exist and the comparison finds every state equal.\<close>

definition equal_env :: env where
  "equal_env = quiet_env
     \<lparr>http_get := (\<lambda>url. \<lparr>status_code = 200, content = ''DMI''\<rparr>),
      compare_two_icon_files := (\<lambda>files path_a path_b.
        [(''state'', \<lparr>status = ''Equal'', img_a = Some ''PNG'', img_a_hash = ''h'',
                      img_b = Some ''PNG'', img_b_hash = ''h''\<rparr>)])\<rparr>"

text \<open>The base side answers 500, the head side exists, and the comparison reports one
  added state.\<close>

definition broken_base_env :: env where
  "broken_base_env = quiet_env
     \<lparr>http_get := (\<lambda>url.
        if url = base_blob0 then \<lparr>status_code = 500, content = ''Internal Server Error''\<rparr>
        else \<lparr>status_code = 200, content = ''DMI-new''\<rparr>),
      compare_two_icon_files := (\<lambda>files path_a path_b.
        [(''state'', \<lparr>status = ''Added'', img_a = None, img_a_hash = [],
                      img_b = Some ''PNG-new'', img_b_hash = ''h-new''\<rparr>)])\<rparr>"







definition side_object :: "side \<Rightarrow> json" where
  "side_object s =
     JObj [(''ref'', JStr (ref s)),
           (''repo'', JObj [(''html_url'', JStr (repo_html_url s)), (''full_name'', JStr (repo_full_name s))])]"





section \<open>Properties\<close>

subsection \<open>The diff extractor\<close>

lemma scan_lines_acc: "scan_lines ls acc = acc @ List.map_filter binary_regex_search ls"
  by (induction ls arbitrary: acc) (auto simp: List.map_filter_simps split: option.splits)

lemma first_match_Some:
  "first_match f xs = Some y \<Longrightarrow> \<exists>x \<in> set xs. f x = Some y"
  by (induction xs) (auto split: option.splits)

lemma first_match_None:
  "first_match f xs = None \<longleftrightarrow> (\<forall>x \<in> set xs. f x = None)"
  by (induction xs) (auto split: option.splits)

lemma prefix_takeWhile_iff:
  "prefix q (takeWhile P s) \<longleftrightarrow> prefix q s \<and> (\<forall>c \<in> set q. P c)"
proof (induction s arbitrary: q)
  case Nil
  then show ?case by auto
next
  case (Cons c s)
  show ?case
  proof (cases q)
    case Nil
    then show ?thesis by simp
  next
    case (Cons d q')
    then show ?thesis using Cons.IH[of q'] by auto
  qed
qed

lemma set_dot_star: "set (dot_star s) = {q. prefix q s \<and> CHR 0x0A \<notin> set q}"
  unfolding dot_star_def set_rev set_prefixes_eq prefix_takeWhile_iff by blast

lemma binary_regex_match_Some:
  assumes "binary_regex_match s = Some g"
  shows "\<exists>q v. g = q @ ''.dmi'' \<and> s = ''diff --git a/'' @ g @ '' b/'' @ v \<and> CHR 0x0A \<notin> set q"
proof -
  from assms have p: "prefix ''diff --git a/'' s"
    by (auto simp: binary_regex_match_def split: if_splits)
  then obtain r where s: "s = ''diff --git a/'' @ r" by (auto simp: prefix_def)
  have "drop 13 s = r" by (simp add: s)
  with assms p obtain q where q: "q \<in> set (dot_star r)" "prefix ''.dmi b/'' (drop (length q) r)" "g = q @ ''.dmi''"
    by (auto simp: binary_regex_match_def Let_def dest!: first_match_Some split: if_splits)
  from q(1) have pq: "prefix q r" and nl: "CHR 0x0A \<notin> set q" by (auto simp: set_dot_star)
  from pq obtain t where r: "r = q @ t" by (auto simp: prefix_def)
  with q(2) obtain v where "t = ''.dmi b/'' @ v" by (auto simp: prefix_def)
  with r s q(3) nl show ?thesis by auto
qed

lemma binary_regex_match_complete:
  assumes "CHR 0x0A \<notin> set q"
  shows "binary_regex_match (''diff --git a/'' @ q @ ''.dmi b/'' @ v) \<noteq> None"
proof -
  let ?r = "q @ ''.dmi b/'' @ v"
  have "q \<in> set (dot_star ?r)" using assms by (simp add: set_dot_star)
  moreover have "prefix ''.dmi b/'' (drop (length q) ?r)" by simp
  ultimately have "first_match (\<lambda>q. if prefix ''.dmi b/'' (drop (length q) ?r) then Some (q @ ''.dmi'') else None)
           (dot_star ?r) \<noteq> None"
    unfolding first_match_None by (metis option.distinct(1))
  then show ?thesis by (simp add: binary_regex_match_def)
qed

lemma binary_regex_search_Some:
  "binary_regex_search l = Some g \<Longrightarrow>
     \<exists>u q v. g = q @ ''.dmi'' \<and> l = u @ ''diff --git a/'' @ g @ '' b/'' @ v \<and> CHR 0x0A \<notin> set q"
proof (induction l)
  case Nil
  then show ?case by (simp add: binary_regex_match_def)
next
  case (Cons c cs)
  show ?case
  proof (cases "binary_regex_match (c # cs)")
    case None
    with Cons.prems have "binary_regex_search cs = Some g" by simp
    from Cons.IH[OF this] obtain u q v where
      "g = q @ ''.dmi''" "cs = u @ ''diff --git a/'' @ g @ '' b/'' @ v" "CHR 0x0A \<notin> set q" by blast
    then have "c # cs = (c # u) @ ''diff --git a/'' @ g @ '' b/'' @ v" by simp
    with \<open>g = q @ ''.dmi''\<close> \<open>CHR 0x0A \<notin> set q\<close> show ?thesis by blast
  next
    case (Some g')
    with Cons.prems have "g' = g" by simp
    with Some binary_regex_match_Some[of "c # cs" g] obtain q v where
      "g = q @ ''.dmi''" "c # cs = [] @ ''diff --git a/'' @ g @ '' b/'' @ v" "CHR 0x0A \<notin> set q" by auto
    then show ?thesis by blast
  qed
qed

lemma binary_regex_search_complete:
  assumes "CHR 0x0A \<notin> set q"
  shows "binary_regex_search (u @ ''diff --git a/'' @ q @ ''.dmi b/'' @ v) \<noteq> None"
proof (induction u)
  case Nil
  from binary_regex_match_complete[OF assms, of v]
  obtain g where "binary_regex_match (''diff --git a/'' @ q @ ''.dmi b/'' @ v) = Some g" by auto
  then show ?case by simp
next
  case (Cons c u)
  then show ?case by (auto split: option.splits)
qed

lemma binary_regex_search_None_iff:
  "binary_regex_search l = None \<longleftrightarrow>
     \<not> (\<exists>u q v. l = u @ ''diff --git a/'' @ q @ ''.dmi b/'' @ v \<and> CHR 0x0A \<notin> set q)"
proof
  assume "binary_regex_search l = None"
  then show "\<not> (\<exists>u q v. l = u @ ''diff --git a/'' @ q @ ''.dmi b/'' @ v \<and> CHR 0x0A \<notin> set q)"
    using binary_regex_search_complete by blast
next
  assume no: "\<not> (\<exists>u q v. l = u @ ''diff --git a/'' @ q @ ''.dmi b/'' @ v \<and> CHR 0x0A \<notin> set q)"
  show "binary_regex_search l = None"
  proof (rule ccontr)
    assume "binary_regex_search l \<noteq> None"
    then obtain g where "binary_regex_search l = Some g" by auto
    from binary_regex_search_Some[OF this] obtain u q v where
      "g = q @ ''.dmi''" "l = u @ ''diff --git a/'' @ g @ '' b/'' @ v" "CHR 0x0A \<notin> set q" by blast
    then have "l = u @ ''diff --git a/'' @ q @ ''.dmi b/'' @ v \<and> CHR 0x0A \<notin> set q" by simp
    with no show False by blast
  qed
qed

lemma first_match_longest:
  "first_match f (rev (prefixes t)) = Some y \<Longrightarrow>
     \<exists>q. prefix q t \<and> f q = Some y \<and> (\<forall>q'. prefix q' t \<and> f q' \<noteq> None \<longrightarrow> length q' \<le> length q)"
proof (induction t rule: rev_induct)
  case Nil
  then show ?case by (auto split: option.splits)
next
  case (snoc x t)
  show ?case
  proof (cases "f (t @ [x])")
    case (Some z)
    with snoc.prems have "z = y" by simp
    with Some have "prefix (t @ [x]) (t @ [x]) \<and> f (t @ [x]) = Some y
        \<and> (\<forall>q'. prefix q' (t @ [x]) \<and> f q' \<noteq> None \<longrightarrow> length q' \<le> length (t @ [x]))"
      by (auto dest: prefix_length_le)
    then show ?thesis by blast
  next
    case None
    with snoc.prems have "first_match f (rev (prefixes t)) = Some y" by simp
    from snoc.IH[OF this] obtain q where q: "prefix q t" "f q = Some y"
      "\<forall>q'. prefix q' t \<and> f q' \<noteq> None \<longrightarrow> length q' \<le> length q" by blast
    have "length q' \<le> length q" if "prefix q' (t @ [x])" "f q' \<noteq> None" for q'
    proof -
      from that(2) None have "q' \<noteq> t @ [x]" by auto
      with that(1) have "prefix q' t" by (simp add: prefix_snoc)
      with q(3) that(2) show ?thesis by blast
    qed
    moreover from q(1) have "prefix q (t @ [x])" by (simp add: prefix_snoc)
    ultimately show ?thesis using q(2) by blast
  qed
qed

lemma binary_regex_match_longest:
  assumes "binary_regex_match s = Some g"
    and "s = ''diff --git a/'' @ q' @ ''.dmi b/'' @ v'" "CHR 0x0A \<notin> set q'"
  shows "length q' + 4 \<le> length g"
proof -
  let ?r = "q' @ ''.dmi b/'' @ v'"
  let ?f = "\<lambda>q. if prefix ''.dmi b/'' (drop (length q) ?r) then Some (q @ ''.dmi'') else None"
  have r: "drop 13 s = ?r" by (simp add: assms(2))
  have p: "prefix ''diff --git a/'' s" by (simp add: assms(2))
  from assms(1) have "first_match ?f (rev (prefixes (takeWhile (\<lambda>c. c \<noteq> CHR 0x0A) ?r))) = Some g"
    unfolding binary_regex_match_def dot_star_def Let_def r using p by (simp only: if_True)
  from first_match_longest[OF this] obtain q where
    q: "?f q = Some g" "\<forall>q''. prefix q'' (takeWhile (\<lambda>c. c \<noteq> CHR 0x0A) ?r) \<and> ?f q'' \<noteq> None \<longrightarrow> length q'' \<le> length q"
    by blast
  have "prefix q' (takeWhile (\<lambda>c. c \<noteq> CHR 0x0A) ?r)"
    using assms(3) by (auto simp: prefix_takeWhile_iff)
  moreover have "?f q' \<noteq> None" by simp
  ultimately have "length q' \<le> length q" using q(2) by blast
  moreover from q(1) have "g = q @ ''.dmi''" by (auto split: if_splits)
  ultimately show ?thesis by simp
qed

lemma binary_regex_search_leftmost_longest:
  "binary_regex_search l = Some g \<Longrightarrow>
     \<exists>u v. l = u @ ''diff --git a/'' @ g @ '' b/'' @ v
        \<and> (\<forall>u' q' v'. l = u' @ ''diff --git a/'' @ q' @ ''.dmi b/'' @ v' \<and> CHR 0x0A \<notin> set q' \<longrightarrow>
               length u \<le> length u' \<and> (length u' = length u \<longrightarrow> length q' + 4 \<le> length g))"
proof (induction l)
  case Nil
  then show ?case by (simp add: binary_regex_match_def)
next
  case (Cons c cs)
  show ?case
  proof (cases "binary_regex_match (c # cs)")
    case (Some g')
    with Cons.prems have g: "binary_regex_match (c # cs) = Some g" by simp
    from binary_regex_match_Some[OF g] obtain v where
      v: "c # cs = [] @ ''diff --git a/'' @ g @ '' b/'' @ v" by auto
    have "length [] \<le> length u' \<and> (length u' = length ([]::string) \<longrightarrow> length q' + 4 \<le> length g)"
      if "c # cs = u' @ ''diff --git a/'' @ q' @ ''.dmi b/'' @ v' \<and> CHR 0x0A \<notin> set q'" for u' q' v'
    proof -
      have "length q' + 4 \<le> length g" if "u' = []"
        using binary_regex_match_longest[OF g, of q' v'] \<open>c # cs = u' @ _ \<and> _\<close> that by simp
      then show ?thesis by simp
    qed
    with v show ?thesis by blast
  next
    case None
    with Cons.prems have "binary_regex_search cs = Some g" by simp
    from Cons.IH[OF this] obtain u v where
      uv: "cs = u @ ''diff --git a/'' @ g @ '' b/'' @ v"
      and m: "\<forall>u' q' v'. cs = u' @ ''diff --git a/'' @ q' @ ''.dmi b/'' @ v' \<and> CHR 0x0A \<notin> set q' \<longrightarrow>
               length u \<le> length u' \<and> (length u' = length u \<longrightarrow> length q' + 4 \<le> length g)"
      by blast
    have "length (c # u) \<le> length u' \<and> (length u' = length (c # u) \<longrightarrow> length q' + 4 \<le> length g)"
      if d: "c # cs = u' @ ''diff --git a/'' @ q' @ ''.dmi b/'' @ v' \<and> CHR 0x0A \<notin> set q'" for u' q' v'
    proof (cases u')
      case Nil
      with d have "binary_regex_match (c # cs) \<noteq> None"
        using binary_regex_match_complete[of q' v'] by simp
      with None show ?thesis by simp
    next
      case (Cons c' u'')
      with d have "cs = u'' @ ''diff --git a/'' @ q' @ ''.dmi b/'' @ v' \<and> CHR 0x0A \<notin> set q'" by simp
      with m have "length u \<le> length u'' \<and> (length u'' = length u \<longrightarrow> length q' + 4 \<le> length g)"
        by blast
      with Cons show ?thesis by simp
    qed
    moreover from uv have "c # cs = (c # u) @ ''diff --git a/'' @ g @ '' b/'' @ v" by simp
    ultimately show ?thesis by blast
  qed
qed

lemma map_filter_all_None:
  "(\<forall>x \<in> set xs. f x = None) \<Longrightarrow> List.map_filter f xs = []"
  by (induction xs) (auto simp: List.map_filter_simps)

lemma check_diff_fst:
  "fst (check_diff e url w) =
     (if status_code (http_get e url) = 404 then None
      else Some (List.map_filter binary_regex_search (split_nl (content (http_get e url)))))"
  by (simp add: check_diff_def Let_def scan_lines_acc)

lemma single_line_example:
  "List.map_filter binary_regex_search (split_nl ''diff --git a/icons/test.dmi b/icons/test.dmi'')
     = [''icons/test.dmi'']"
  by (simp add: binary_regex_match_def dot_star_def List.map_filter_simps)

text \<open>
  C4. On a diff that was retrieved (any status but 404), \<^verbatim>\<open>check_diff\<close> returns, for the
  lines in order, group 1 of the leftmost match of \<^verbatim>\<open>binary_regex\<close> in each line that has
  one, so order and duplicates are those of the diff. A line has a match exactly when
  it contains \<^verbatim>\<open>diff --git a/\<close>, a path ending in \<^verbatim>\<open>.dmi\<close> and \<^verbatim>\<open> b/\<close> in a row, and
  the path returned is such a path of that line: the one of the leftmost such place, and
  the longest there. The single line
  \<^verbatim>\<open>diff --git a/icons/test.dmi b/icons/test.dmi\<close> yields exactly \<^verbatim>\<open>icons/test.dmi\<close>, a text
  with no matching line yields the empty list, and the function is total: no line
  raises.
\<close>

theorem check_diff_extracts_sprite_paths:
  "(status_code (http_get e url) \<noteq> 404 \<longrightarrow>
      fst (check_diff e url w) =
        Some (List.map_filter binary_regex_search (split_nl (content (http_get e url)))))
   \<and> (binary_regex_search line = Some g \<longrightarrow>
        suffix ''.dmi'' g
        \<and> (\<exists>u v. line = u @ ''diff --git a/'' @ g @ '' b/'' @ v
              \<and> (\<forall>u' q' v'. line = u' @ ''diff --git a/'' @ q' @ ''.dmi b/'' @ v' \<and> CHR 0x0A \<notin> set q' \<longrightarrow>
                     length u \<le> length u' \<and> (length u' = length u \<longrightarrow> length q' + 4 \<le> length g))))
   \<and> (binary_regex_search line = None \<longleftrightarrow>
        \<not> (\<exists>u q v. line = u @ ''diff --git a/'' @ q @ ''.dmi b/'' @ v \<and> CHR 0x0A \<notin> set q))
   \<and> (status_code (http_get e url) \<noteq> 404
        \<and> content (http_get e url) = ''diff --git a/icons/test.dmi b/icons/test.dmi'' \<longrightarrow>
        fst (check_diff e url w) = Some [''icons/test.dmi''])
   \<and> (status_code (http_get e url) \<noteq> 404
        \<and> (\<forall>l \<in> set (split_nl (content (http_get e url))). binary_regex_search l = None) \<longrightarrow>
        fst (check_diff e url w) = Some [])"
proof (intro conjI impI)
  assume "status_code (http_get e url) \<noteq> 404"
  then show "fst (check_diff e url w) =
        Some (List.map_filter binary_regex_search (split_nl (content (http_get e url))))"
    by (simp add: check_diff_fst)
next
  assume s: "binary_regex_search line = Some g"
  from binary_regex_search_Some[OF s] obtain u q v where "g = q @ ''.dmi''" by blast
  then show "suffix ''.dmi'' g" by (simp add: suffix_def)
  from s show "\<exists>u v. line = u @ ''diff --git a/'' @ g @ '' b/'' @ v
              \<and> (\<forall>u' q' v'. line = u' @ ''diff --git a/'' @ q' @ ''.dmi b/'' @ v' \<and> CHR 0x0A \<notin> set q' \<longrightarrow>
                     length u \<le> length u' \<and> (length u' = length u \<longrightarrow> length q' + 4 \<le> length g))"
    by (rule binary_regex_search_leftmost_longest)
next
  show "binary_regex_search line = None \<longleftrightarrow>
        \<not> (\<exists>u q v. line = u @ ''diff --git a/'' @ q @ ''.dmi b/'' @ v \<and> CHR 0x0A \<notin> set q)"
    by (rule binary_regex_search_None_iff)
next
  assume "status_code (http_get e url) \<noteq> 404
        \<and> content (http_get e url) = ''diff --git a/icons/test.dmi b/icons/test.dmi''"
  then show "fst (check_diff e url w) = Some [''icons/test.dmi'']"
    using single_line_example by (simp only: check_diff_fst if_False)
next
  assume "status_code (http_get e url) \<noteq> 404
        \<and> (\<forall>l \<in> set (split_nl (content (http_get e url))). binary_regex_search l = None)"
  then show "fst (check_diff e url w) = Some []"
    by (simp add: check_diff_fst map_filter_all_None)
qed

lemma two_sprites_scan:
  "List.map_filter binary_regex_search (split_nl two_sprites_diff)
     = [''icons/a.dmi'', ''icons/b.dmi'', ''icons/a.dmi'']"
  by (simp add: two_sprites_diff_def binary_regex_match_def dot_star_def List.map_filter_simps)

theorem check_diff_extracts_sprite_paths_witness:
  "status_code (http_get (diff_env 200) ''https://github.com/o/r/pull/1.diff'') \<noteq> 404
   \<and> fst (check_diff (diff_env 200) ''https://github.com/o/r/pull/1.diff'' empty_world)
       = Some [''icons/a.dmi'', ''icons/b.dmi'', ''icons/a.dmi'']
   \<and> binary_regex_search ''Binary files differ'' = None"
proof -
  have a: "status_code (http_get (diff_env 200) ''https://github.com/o/r/pull/1.diff'') \<noteq> 404"
    and c: "content (http_get (diff_env 200) ''https://github.com/o/r/pull/1.diff'') = two_sprites_diff"
    by (simp_all add: diff_env_def)
  have n: "binary_regex_search ''Binary files differ'' = None"
    by (simp add: binary_regex_match_def dot_star_def)
  note t = check_diff_extracts_sprite_paths
         [of "diff_env 200" "''https://github.com/o/r/pull/1.diff''" empty_world "''Binary files differ''" "[]"]
  from t[THEN conjunct1] a
  have "fst (check_diff (diff_env 200) ''https://github.com/o/r/pull/1.diff'' empty_world)
          = Some (List.map_filter binary_regex_search (split_nl two_sprites_diff))"
    by (simp only: c simp_thms)
  with a n show ?thesis by (simp only: two_sprites_scan simp_thms)
qed

subsection \<open>The unavailable diff\<close>

text \<open>
  C9. \<^verbatim>\<open>check_diff\<close> returns \<^verbatim>\<open>None\<close> exactly when the GET of the diff answers 404. For
  every other status, a server error included, the body is split into lines and scanned
  for sprite paths like a retrieved diff. The GET is made once in both cases.
\<close>

theorem check_diff_none_only_on_404:
  "(fst (check_diff e url w) = None \<longleftrightarrow> status_code (http_get e url) = 404)
   \<and> (status_code (http_get e url) \<noteq> 404 \<longrightarrow>
        fst (check_diff e url w) = Some (scan_lines (split_nl (content (http_get e url))) []))
   \<and> snd (check_diff e url w) = emit (Get url) w"
  by (simp add: check_diff_def Let_def)

theorem check_diff_none_only_on_404_witness:
  "status_code (http_get (diff_env 500) ''https://github.com/o/r/pull/1.diff'') \<noteq> 404
   \<and> fst (check_diff (diff_env 500) ''https://github.com/o/r/pull/1.diff'' empty_world)
       = Some [''icons/a.dmi'', ''icons/b.dmi'', ''icons/a.dmi'']
   \<and> fst (check_diff (diff_env 404) ''https://github.com/o/r/pull/1.diff'' empty_world) = None"
proof -
  have a: "status_code (http_get (diff_env 500) ''https://github.com/o/r/pull/1.diff'') \<noteq> 404"
    and c: "content (http_get (diff_env 500) ''https://github.com/o/r/pull/1.diff'') = two_sprites_diff"
    and b: "status_code (http_get (diff_env 404) ''https://github.com/o/r/pull/1.diff'') = 404"
    by (simp_all add: diff_env_def)
  from check_diff_none_only_on_404
         [of "diff_env 500" "''https://github.com/o/r/pull/1.diff''" empty_world]
       check_diff_none_only_on_404
         [of "diff_env 404" "''https://github.com/o/r/pull/1.diff''" empty_world]
  show ?thesis using a b by (simp add: c scan_lines_acc two_sprites_scan)
qed

subsection \<open>The signature verifier\<close>

lemma str_remove_no_occurrence:
  "\<not> sublist old d \<Longrightarrow> str_remove old d = d"
  by (induction d) (auto simp: sublist_Cons_right)

lemma str_remove_prefix:
  "old \<noteq> [] \<Longrightarrow> str_remove old (old @ d) = str_remove old d"
  by (cases old) auto

lemma set_str_remove: "set (str_remove old s) \<subseteq> set s"
proof (induction old s rule: str_remove.induct)
  case (1 old)
  then show ?case by simp
next
  case (2 old c cs)
  show ?case
  proof (cases "old \<noteq> [] \<and> prefix old (c # cs)")
    case True
    with 2(1) have "set (str_remove old (drop (length old) (c # cs))) \<subseteq> set (drop (length old) (c # cs))"
      by blast
    also have "\<dots> \<subseteq> set (c # cs)" by (rule set_drop_subset)
    finally show ?thesis using True by simp
  next
    case False
    with 2(2) have "set (str_remove old cs) \<subseteq> set cs" by blast
    with False show ?thesis by (auto simp only: str_remove.simps if_False set_simps)
  qed
qed

lemma sublist_hd_in_set: "sublist (x # xs) d \<Longrightarrow> x \<in> set d"
  by (auto simp: sublist_def)

lemma is_ascii_append: "is_ascii (a @ b) \<longleftrightarrow> is_ascii a \<and> is_ascii b"
  by (simp add: is_ascii_def)

lemma is_ascii_str_remove: "is_ascii s \<Longrightarrow> is_ascii (str_remove old s)"
  unfolding is_ascii_def list_all_iff using set_str_remove[of old s] by blast

lemma hex_char_ascii: "c \<in> set ''0123456789abcdef'' \<Longrightarrow> of_char c < (128::nat)"
  by auto

lemma hex_char_not_s: "c \<in> set ''0123456789abcdef'' \<Longrightarrow> c \<noteq> CHR ''s''"
  by auto

lemma hex_string_ascii: "hex_string d \<Longrightarrow> is_ascii d"
  unfolding hex_string_def is_ascii_def list_all_iff using hex_char_ascii by blast

lemma hex_string_no_s: "hex_string d \<Longrightarrow> CHR ''s'' \<notin> set d"
  unfolding hex_string_def list_all_iff using hex_char_not_s by blast

lemma hex_string_no_prefix_token: "hex_string d \<Longrightarrow> \<not> sublist ''sha1='' d"
  using hex_string_no_s sublist_hd_in_set by fastforce

lemma compare_secret_ascii:
  assumes "is_ascii h" "is_ascii (hexdigest e (github_secret cfg) P)"
  shows "compare_secret cfg e (Some h) P
           = Inr (str_remove ''sha1='' h = hexdigest e (github_secret cfg) P)"
  using is_ascii_str_remove[OF assms(1), of "''sha1=''"] assms(2)
  by (simp only: compare_secret_def option.case Let_def compare_digest_def if_True simp_thms)

lemma str_remove_presented:
  assumes "\<not> sublist ''sha1='' d"
  shows "str_remove ''sha1='' (''sha1='' @ d) = d"
  using str_remove_prefix[of "''sha1=''" d] str_remove_no_occurrence[OF assms] by simp

text \<open>
  C1, as amended. For every payload and secret whose digest is printed in hexadecimal,
  and every header value made of ASCII characters, \<^verbatim>\<open>compare_secret\<close> returns true exactly
  when the value, with every occurrence of \<^verbatim>\<open>sha1=\<close> removed, is the digest of the payload
  under the configured secret. So it returns true on \<^verbatim>\<open>sha1=\<close> followed by the digest; on
  \<^verbatim>\<open>sha1=\<close> followed by anything else that is ASCII and does not itself contain \<^verbatim>\<open>sha1=\<close>,
  such as the digest with \<^verbatim>\<open>corrupted\<close> appended, it returns false; on \<^verbatim>\<open>sha1=\<close> followed by
  the digest made with another secret it returns false exactly when the two digests
  differ; and it returns false when the header is absent.
\<close>

theorem compare_secret_exact:
  assumes "hex_string (hexdigest e (github_secret cfg) P)"
  shows "(\<forall>h. is_ascii h \<longrightarrow>
            compare_secret cfg e (Some h) P
              = Inr (str_remove ''sha1='' h = hexdigest e (github_secret cfg) P))
   \<and> compare_secret cfg e (Some (''sha1='' @ hexdigest e (github_secret cfg) P)) P = Inr True
   \<and> compare_secret cfg e (Some (''sha1='' @ hexdigest e (github_secret cfg) P @ ''corrupted'')) P = Inr False
   \<and> (\<forall>d. is_ascii d \<and> \<not> sublist ''sha1='' d \<longrightarrow>
          compare_secret cfg e (Some (''sha1='' @ d)) P = Inr (d = hexdigest e (github_secret cfg) P))
   \<and> (\<forall>S'. hex_string (hexdigest e S' P) \<longrightarrow>
          compare_secret cfg e (Some (''sha1='' @ hexdigest e S' P)) P
            = Inr (hexdigest e S' P = hexdigest e (github_secret cfg) P))
   \<and> compare_secret cfg e None P = Inr False"
proof -
  let ?D = "hexdigest e (github_secret cfg) P"
  have asc: "is_ascii ?D" and nos: "CHR ''s'' \<notin> set ?D" and nop: "\<not> sublist ''sha1='' ?D"
    using assms by (rule hex_string_ascii, rule hex_string_no_s, rule hex_string_no_prefix_token)
  have p_asc: "is_ascii ''sha1=''" by (simp add: is_ascii_def)
  have exact: "compare_secret cfg e (Some h) P = Inr (str_remove ''sha1='' h = ?D)" if "is_ascii h" for h
    using compare_secret_ascii[OF that asc] .
  have general: "compare_secret cfg e (Some (''sha1='' @ d)) P = Inr (d = ?D)"
    if "is_ascii d" "\<not> sublist ''sha1='' d" for d
  proof -
    from that(1) p_asc have "is_ascii (''sha1='' @ d)" by (simp only: is_ascii_append)
    from exact[OF this] str_remove_presented[OF that(2)] show ?thesis by (simp only:)
  qed
  have 1: "compare_secret cfg e (Some (''sha1='' @ ?D)) P = Inr True"
    using general[OF asc nop] by simp
  have c_asc: "is_ascii ''corrupted''" by (simp add: is_ascii_def)
  have c_nos: "CHR ''s'' \<notin> set ''corrupted''" by simp
  have "\<not> sublist ''sha1='' (?D @ ''corrupted'')"
  proof
    assume "sublist ''sha1='' (?D @ ''corrupted'')"
    then have "CHR ''s'' \<in> set (?D @ ''corrupted'')" by (rule sublist_hd_in_set)
    with nos c_nos show False by (simp only: set_append Un_iff) blast
  qed
  moreover have "is_ascii (?D @ ''corrupted'')" using asc c_asc by (simp only: is_ascii_append)
  ultimately have 2: "compare_secret cfg e (Some (''sha1='' @ ?D @ ''corrupted'')) P = Inr False"
    using general[of "?D @ ''corrupted''"] by simp
  have 4: "compare_secret cfg e (Some (''sha1='' @ hexdigest e S' P)) P = Inr (hexdigest e S' P = ?D)"
    if "hex_string (hexdigest e S' P)" for S'
    using general[OF hex_string_ascii[OF that] hex_string_no_prefix_token[OF that]] .
  have 5: "compare_secret cfg e None P = Inr False" by (simp add: compare_secret_def)
  from exact 1 2 general 4 5 show ?thesis by blast
qed

lemma signing_digest:
  "hexdigest signing_env (github_secret bot_config) opened_body = ''a8e374e6882496c8694b876c20ddcc90825c2d9e''"
  "hexdigest signing_env padded_secret opened_body = ''a8e374e6882496c8694b876c20ddcc90825c2d9e''"
  "hexdigest signing_env ''wrong'' opened_body = ''03a77618d556502b05dc62757709aeea2aa99b9f''"
  by (simp_all add: signing_env_def quiet_env_def bot_config_def padded_secret_def)

lemma signing_hex:
  "hex_string ''a8e374e6882496c8694b876c20ddcc90825c2d9e''"
  "hex_string ''03a77618d556502b05dc62757709aeea2aa99b9f''"
  by (simp_all add: hex_string_def)

lemma inserted_token_removed:
  "str_remove ''sha1='' ''sha1=a8e3sha1=74e6882496c8694b876c20ddcc90825c2d9e''
     = ''a8e374e6882496c8694b876c20ddcc90825c2d9e''"
  by simp

text \<open>
  C1 as stated fails twice. A corrupted digest is accepted: \<^verbatim>\<open>sha1=\<close> written once more in
  the middle of the right digest is removed with the prefix, and the rest compares equal.
  A wrong secret is accepted: the configured secret followed by a zero byte is another
  secret with the same HMAC, so the header made with it verifies.
\<close>

theorem compare_secret_verifies_counterexample:
  "''sha1=a8e3sha1=74e6882496c8694b876c20ddcc90825c2d9e''
      \<noteq> ''sha1='' @ hexdigest signing_env (github_secret bot_config) opened_body
   \<and> compare_secret bot_config signing_env
        (Some ''sha1=a8e3sha1=74e6882496c8694b876c20ddcc90825c2d9e'') opened_body = Inr True
   \<and> padded_secret \<noteq> github_secret bot_config
   \<and> compare_secret bot_config signing_env
        (Some (''sha1='' @ hexdigest signing_env padded_secret opened_body)) opened_body = Inr True"
  by (simp add: compare_secret_def compare_digest_def is_ascii_def signing_digest Let_def)
    (simp add: bot_config_def padded_secret_def)

theorem compare_secret_exact_witness:
  "hex_string (hexdigest signing_env (github_secret bot_config) opened_body)
   \<and> compare_secret bot_config signing_env (Some ''sha1=a8e374e6882496c8694b876c20ddcc90825c2d9e'') opened_body = Inr True
   \<and> compare_secret bot_config signing_env (Some ''sha1=a8e374e6882496c8694b876c20ddcc90825c2d9ecorrupted'') opened_body = Inr False
   \<and> compare_secret bot_config signing_env (Some ''sha1=a8e374e6882496c8694b876c20ddcc90825c2d9f'') opened_body = Inr False
   \<and> compare_secret bot_config signing_env (Some ''sha1=03a77618d556502b05dc62757709aeea2aa99b9f'') opened_body = Inr False
   \<and> compare_secret bot_config signing_env (Some ''sha1=a8e3sha1=74e6882496c8694b876c20ddcc90825c2d9e'') opened_body = Inr True
   \<and> compare_secret bot_config signing_env None opened_body = Inr False"
proof -
  have h: "hex_string (hexdigest signing_env (github_secret bot_config) opened_body)"
    by (simp only: signing_digest signing_hex)
  have h': "hex_string (hexdigest signing_env ''wrong'' opened_body)"
    by (simp only: signing_digest signing_hex)
  have d: "is_ascii ''a8e374e6882496c8694b876c20ddcc90825c2d9f''
            \<and> \<not> sublist ''sha1='' ''a8e374e6882496c8694b876c20ddcc90825c2d9f''"
    by (simp add: is_ascii_def sublist_Cons_right)
  have i: "is_ascii ''sha1=a8e3sha1=74e6882496c8694b876c20ddcc90825c2d9e''"
    by (simp add: is_ascii_def)
  note t = compare_secret_exact[OF h]
  from t have a: "compare_secret bot_config signing_env (Some ''sha1=a8e374e6882496c8694b876c20ddcc90825c2d9e'') opened_body = Inr True"
    and b: "compare_secret bot_config signing_env (Some ''sha1=a8e374e6882496c8694b876c20ddcc90825c2d9ecorrupted'') opened_body = Inr False"
    and n: "compare_secret bot_config signing_env None opened_body = Inr False"
    by (simp_all add: signing_digest)
  from t have g: "is_ascii d \<and> \<not> sublist ''sha1='' d
          \<Longrightarrow> compare_secret bot_config signing_env (Some (''sha1='' @ d)) opened_body
                = Inr (d = hexdigest signing_env (github_secret bot_config) opened_body)" for d
    by blast
  from g[of "''a8e374e6882496c8694b876c20ddcc90825c2d9f''"] d
  have c: "compare_secret bot_config signing_env (Some ''sha1=a8e374e6882496c8694b876c20ddcc90825c2d9f'') opened_body = Inr False"
    by (simp add: signing_digest)
  from t have k: "hex_string (hexdigest signing_env S' opened_body)
          \<Longrightarrow> compare_secret bot_config signing_env (Some (''sha1='' @ hexdigest signing_env S' opened_body)) opened_body
                = Inr (hexdigest signing_env S' opened_body = hexdigest signing_env (github_secret bot_config) opened_body)" for S'
    by blast
  from k[of "''wrong''"] h'
  have w: "compare_secret bot_config signing_env (Some ''sha1=03a77618d556502b05dc62757709aeea2aa99b9f'') opened_body = Inr False"
    by (simp add: signing_digest)
  from t have x: "is_ascii h \<Longrightarrow> compare_secret bot_config signing_env (Some h) opened_body
      = Inr (str_remove ''sha1='' h = hexdigest signing_env (github_secret bot_config) opened_body)" for h
    by blast
  from x[OF i]
  have y: "compare_secret bot_config signing_env (Some ''sha1=a8e3sha1=74e6882496c8694b876c20ddcc90825c2d9e'') opened_body = Inr True"
    by (simp only: inserted_token_removed signing_digest simp_thms)
  from h a b c w y n show ?thesis by blast
qed

subsection \<open>The image publisher\<close>

lemma upload_image_hit:
  "db w h = Some u \<Longrightarrow> upload_image cfg e file h True w = (Inr (Some u), w)"
  by (simp add: upload_image_def)

lemma upload_image_miss:
  assumes "db w h = None" "image_host e (upload_api_url cfg) (upload_api_key cfg) file = Inr u"
  shows "upload_image cfg e file h True w =
           (Inr (Some u), w\<lparr>trace := trace w @ [Upload h file], db := (db w)(h \<mapsto> u)\<rparr>)"
  using assms by (simp add: upload_image_def emit_def Let_def)

lemma upload_image_unanswered:
  assumes "db w h = None" "image_host e (upload_api_url cfg) (upload_api_key cfg) file = Inl err"
  shows "upload_image cfg e file h True w = (Inl err, w\<lparr>trace := trace w @ [Upload h file]\<rparr>)"
  using assms by (simp add: upload_image_def emit_def Let_def)

lemma upload_image_off: "upload_image cfg e file h False w = (Inr None, w)"
  by (simp add: upload_image_def)

lemma upload_count_emit:
  "upload_count h (w\<lparr>trace := trace w @ [Upload h' file], db := d\<rparr>)
     = upload_count h w + (if h' = h then 1 else 0)"
  by (simp add: upload_count_def)

lemma upload_count_emit_only:
  "upload_count h (w\<lparr>trace := trace w @ [Upload h' file]\<rparr>)
     = upload_count h w + (if h' = h then 1 else 0)"
  by (simp add: upload_count_def)

text \<open>The uploads answered for a hash, plus one while the hash is not cached: no call of
  \<^verbatim>\<open>upload_image\<close> makes this number grow.\<close>

lemma upload_image_potential:
  "answered_count cfg e h (snd (upload_image cfg e file h0 True w))
      + (if db (snd (upload_image cfg e file h0 True w)) h = None then 1 else 0)
     \<le> answered_count cfg e h w + (if db w h = None then 1 else 0)"
proof (cases "db w h0")
  case (Some u)
  then show ?thesis by (simp add: upload_image_hit)
next
  case None
  show ?thesis
  proof (cases "image_host e (upload_api_url cfg) (upload_api_key cfg) file")
    case (Inl err)
    from upload_image_unanswered[OF None Inl] Inl show ?thesis
      by (simp add: answered_count_def)
  next
    case (Inr u)
    from upload_image_miss[OF None Inr] Inr None show ?thesis
      by (simp add: answered_count_def)
  qed
qed

lemma upload_image_cached:
  assumes "db w h = Some u"
  shows "db (snd (upload_image cfg e file h0 True w)) h = Some u
         \<and> upload_count h (snd (upload_image cfg e file h0 True w)) = upload_count h w"
proof (cases "db w h0")
  case (Some u0)
  then show ?thesis using assms by (simp add: upload_image_hit)
next
  case None
  with assms have ne: "h0 \<noteq> h" by auto
  show ?thesis
  proof (cases "image_host e (upload_api_url cfg) (upload_api_key cfg) file")
    case (Inl err)
    from upload_image_unanswered[OF None Inl] ne assms show ?thesis
      by (simp add: upload_count_emit_only)
  next
    case (Inr u')
    from upload_image_miss[OF None Inr] ne assms show ?thesis
      by (simp add: upload_count_emit)
  qed
qed

lemma upload_each_potential:
  "answered_count cfg e h (snd (upload_each cfg e calls w))
      + (if db (snd (upload_each cfg e calls w)) h = None then 1 else 0)
     \<le> answered_count cfg e h w + (if db w h = None then 1 else 0)"
proof (induction calls arbitrary: w)
  case Nil
  then show ?case by simp
next
  case (Cons call calls)
  obtain png h0 where call: "call = (png, h0)" by (cases call)
  obtain r w1 where 1: "upload_image cfg e png h0 True w = (r, w1)"
    by (cases "upload_image cfg e png h0 True w")
  obtain rs w2 where 2: "upload_each cfg e calls w1 = (rs, w2)"
    by (cases "upload_each cfg e calls w1")
  from upload_image_potential[of cfg e h png h0 w] 1
  have a: "answered_count cfg e h w1 + (if db w1 h = None then 1 else 0)
             \<le> answered_count cfg e h w + (if db w h = None then 1 else 0)" by simp
  from Cons.IH[of w1] 2
  have b: "answered_count cfg e h w2 + (if db w2 h = None then 1 else 0)
             \<le> answered_count cfg e h w1 + (if db w1 h = None then 1 else 0)" by simp
  from a b have "answered_count cfg e h w2 + (if db w2 h = None then 1 else 0)
             \<le> answered_count cfg e h w + (if db w h = None then 1 else 0)" by (rule order_trans[rotated])
  moreover from 1 2 have "snd (upload_each cfg e (call # calls) w) = w2" by (simp add: call)
  ultimately show ?case by (simp only:)
qed

lemma upload_each_cached:
  "db w h = Some u \<Longrightarrow>
     db (snd (upload_each cfg e calls w)) h = Some u
     \<and> upload_count h (snd (upload_each cfg e calls w)) = upload_count h w"
proof (induction calls arbitrary: w)
  case Nil
  then show ?case by simp
next
  case (Cons call calls)
  obtain png h0 where call: "call = (png, h0)" by (cases call)
  obtain r w1 where 1: "upload_image cfg e png h0 True w = (r, w1)"
    by (cases "upload_image cfg e png h0 True w")
  obtain rs w2 where 2: "upload_each cfg e calls w1 = (rs, w2)"
    by (cases "upload_each cfg e calls w1")
  from upload_image_cached[OF Cons.prems, of cfg e png h0] 1
  have a: "db w1 h = Some u" "upload_count h w1 = upload_count h w" by simp_all
  from Cons.IH[OF a(1)] 2 a(2)
  have "db w2 h = Some u \<and> upload_count h w2 = upload_count h w" by simp
  moreover from 1 2 have "snd (upload_each cfg e (call # calls) w) = w2" by (simp add: call)
  ultimately show ?case by (simp only:)
qed

lemma upload_twice_same_hash:
  assumes miss: "db w h = None"
    and u: "image_host e (upload_api_url cfg) (upload_api_key cfg) file1 = Inr u"
  shows "upload_each cfg e [(file1, h), (file2, h)] w
           = ([Inr (Some u), Inr (Some u)],
              w\<lparr>trace := trace w @ [Upload h file1], db := (db w)(h \<mapsto> u)\<rparr>)"
proof -
  let ?w1 = "w\<lparr>trace := trace w @ [Upload h file1], db := (db w)(h \<mapsto> u)\<rparr>"
  have 1: "upload_image cfg e file1 h True w = (Inr (Some u), ?w1)"
    by (rule upload_image_miss[OF miss u])
  have 2: "upload_image cfg e file2 h True ?w1 = (Inr (Some u), ?w1)"
    by (rule upload_image_hit) simp
  show ?thesis by (simp add: 1 2)
qed

lemma upload_twice_unanswered:
  assumes miss: "db w h = None"
    and u1: "image_host e (upload_api_url cfg) (upload_api_key cfg) file1 = Inl err1"
    and u2: "image_host e (upload_api_url cfg) (upload_api_key cfg) file2 = Inl err2"
  shows "upload_each cfg e [(file1, h), (file2, h)] w
           = ([Inl err1, Inl err2], w\<lparr>trace := trace w @ [Upload h file1, Upload h file2]\<rparr>)"
proof -
  let ?w1 = "w\<lparr>trace := trace w @ [Upload h file1]\<rparr>"
  have 1: "upload_image cfg e file1 h True w = (Inl err1, ?w1)"
    by (rule upload_image_unanswered[OF miss u1])
  have "db ?w1 h = None" using miss by simp
  from upload_image_unanswered[OF this u2]
  have 2: "upload_image cfg e file2 h True ?w1 = (Inl err2, w\<lparr>trace := trace w @ [Upload h file1, Upload h file2]\<rparr>)"
    by simp
  show ?thesis by (simp add: 1 2)
qed

text \<open>
  C3, as amended. \<^verbatim>\<open>upload_image\<close> on a cached hash returns the cached URL and changes
  nothing, so no upload is made. On a hash that is not cached it makes exactly one upload
  call; when the host answers it with a URL, the URL is stored under the hash and
  returned; when the answer carries no url, the call raises and nothing is stored. Over
  any sequence of calls, from any state of the cache, every hash gets at most one upload
  that is answered with a URL, and none at all, answered or not, once it is cached; a
  cached hash keeps its URL. Two sub-images with one content hash get the same URL from a
  single upload when that upload is answered; when it is not, the second sub-image is
  uploaded as well.
\<close>

theorem upload_image_once_per_answered_hash:
  "(\<forall>file h u. db w h = Some u \<longrightarrow> upload_image cfg e file h True w = (Inr (Some u), w))
   \<and> (\<forall>file h u. db w h = None
           \<and> image_host e (upload_api_url cfg) (upload_api_key cfg) file = Inr u \<longrightarrow>
         upload_image cfg e file h True w =
           (Inr (Some u), w\<lparr>trace := trace w @ [Upload h file], db := (db w)(h \<mapsto> u)\<rparr>))
   \<and> (\<forall>file h err. db w h = None
           \<and> image_host e (upload_api_url cfg) (upload_api_key cfg) file = Inl err \<longrightarrow>
         upload_image cfg e file h True w = (Inl err, w\<lparr>trace := trace w @ [Upload h file]\<rparr>))
   \<and> (\<forall>calls h. answered_count cfg e h (snd (upload_each cfg e calls w))
                   \<le> answered_count cfg e h w + (if db w h = None then 1 else 0))
   \<and> (\<forall>calls h u. db w h = Some u \<longrightarrow>
         db (snd (upload_each cfg e calls w)) h = Some u
         \<and> upload_count h (snd (upload_each cfg e calls w)) = upload_count h w)
   \<and> (\<forall>file1 file2 h u. db w h = None
           \<and> image_host e (upload_api_url cfg) (upload_api_key cfg) file1 = Inr u \<longrightarrow>
         (\<exists>w'. upload_each cfg e [(file1, h), (file2, h)] w = ([Inr (Some u), Inr (Some u)], w')
            \<and> upload_count h w' = upload_count h w + 1))
   \<and> (\<forall>file1 file2 h err1 err2. db w h = None
           \<and> image_host e (upload_api_url cfg) (upload_api_key cfg) file1 = Inl err1
           \<and> image_host e (upload_api_url cfg) (upload_api_key cfg) file2 = Inl err2 \<longrightarrow>
         (\<exists>w'. upload_each cfg e [(file1, h), (file2, h)] w = ([Inl err1, Inl err2], w')
            \<and> db w' h = None \<and> upload_count h w' = upload_count h w + 2))"
proof (intro conjI allI impI)
  fix png h u assume "db w h = Some u"
  then show "upload_image cfg e png h True w = (Inr (Some u), w)" by (rule upload_image_hit)
next
  fix png h u
  assume "db w h = None \<and> image_host e (upload_api_url cfg) (upload_api_key cfg) png = Inr u"
  then show "upload_image cfg e png h True w =
           (Inr (Some u), w\<lparr>trace := trace w @ [Upload h png], db := (db w)(h \<mapsto> u)\<rparr>)"
    using upload_image_miss by blast
next
  fix png h err
  assume "db w h = None \<and> image_host e (upload_api_url cfg) (upload_api_key cfg) png = Inl err"
  then show "upload_image cfg e png h True w = (Inl err, w\<lparr>trace := trace w @ [Upload h png]\<rparr>)"
    using upload_image_unanswered by blast
next
  fix calls h
  from upload_each_potential[of cfg e h calls w]
  show "answered_count cfg e h (snd (upload_each cfg e calls w))
          \<le> answered_count cfg e h w + (if db w h = None then 1 else 0)"
    by (simp split: if_splits)
next
  fix calls h u assume "db w h = Some u"
  then show "db (snd (upload_each cfg e calls w)) h = Some u" using upload_each_cached by blast
next
  fix calls h u assume "db w h = Some u"
  then show "upload_count h (snd (upload_each cfg e calls w)) = upload_count h w"
    using upload_each_cached by blast
next
  fix file1 file2 h u
  assume a: "db w h = None \<and> image_host e (upload_api_url cfg) (upload_api_key cfg) file1 = Inr u"
  let ?w1 = "w\<lparr>trace := trace w @ [Upload h file1], db := (db w)(h \<mapsto> u)\<rparr>"
  from a have "upload_each cfg e [(file1, h), (file2, h)] w = ([Inr (Some u), Inr (Some u)], ?w1)"
    using upload_twice_same_hash by blast
  moreover have "upload_count h ?w1 = upload_count h w + 1" by (simp add: upload_count_emit)
  ultimately show "\<exists>w'. upload_each cfg e [(file1, h), (file2, h)] w = ([Inr (Some u), Inr (Some u)], w')
            \<and> upload_count h w' = upload_count h w + 1" by blast
next
  fix file1 file2 h err1 err2
  assume a: "db w h = None
           \<and> image_host e (upload_api_url cfg) (upload_api_key cfg) file1 = Inl err1
           \<and> image_host e (upload_api_url cfg) (upload_api_key cfg) file2 = Inl err2"
  let ?w2 = "w\<lparr>trace := trace w @ [Upload h file1, Upload h file2]\<rparr>"
  from a have "upload_each cfg e [(file1, h), (file2, h)] w = ([Inl err1, Inl err2], ?w2)"
    using upload_twice_unanswered by blast
  moreover have "upload_count h ?w2 = upload_count h w + 2" by (simp add: upload_count_def)
  moreover have "db ?w2 h = None" using a by simp
  ultimately show "\<exists>w'. upload_each cfg e [(file1, h), (file2, h)] w = ([Inl err1, Inl err2], w')
            \<and> db w' h = None \<and> upload_count h w' = upload_count h w + 2" by blast
qed

text \<open>
  C3 as stated fails when the image host does not answer an upload with a URL: the call
  raises before anything is cached, so the next call for the same hash uploads again. With
  a fresh cache and such a host, two calls for one hash make two uploads.
\<close>

theorem upload_image_once_per_hash_counterexample:
  "upload_image bot_config refusing_host_env ''PNG-1'' ''h1'' True empty_world
     = (Inl KeyError, empty_world\<lparr>trace := [Upload ''h1'' ''PNG-1'']\<rparr>)
   \<and> upload_image bot_config refusing_host_env ''PNG-1'' ''h1'' True
       (empty_world\<lparr>trace := [Upload ''h1'' ''PNG-1'']\<rparr>)
     = (Inl KeyError, empty_world\<lparr>trace := [Upload ''h1'' ''PNG-1'', Upload ''h1'' ''PNG-1'']\<rparr>)
   \<and> upload_count ''h1'' (empty_world\<lparr>trace := [Upload ''h1'' ''PNG-1'', Upload ''h1'' ''PNG-1'']\<rparr>) = 2"
  by (simp add: upload_image_def emit_def Let_def refusing_host_env_def quiet_env_def empty_world_def
        upload_count_def)

theorem upload_image_once_per_answered_hash_witness:
  "upload_each bot_config quiet_env [(''PNG-1'', ''h1''), (''PNG-1'', ''h1'')] empty_world
      = ([Inr (Some ''https://img.example/PNG-1''), Inr (Some ''https://img.example/PNG-1'')],
         empty_world\<lparr>trace := [Upload ''h1'' ''PNG-1''], db := [''h1'' \<mapsto> ''https://img.example/PNG-1'']\<rparr>)
   \<and> upload_count ''h1''
        (empty_world\<lparr>trace := [Upload ''h1'' ''PNG-1''], db := [''h1'' \<mapsto> ''https://img.example/PNG-1'']\<rparr>) = 1
   \<and> upload_image bot_config quiet_env ''PNG-1'' ''h1'' True empty_world
       = (Inr (Some ''https://img.example/PNG-1''),
          empty_world\<lparr>trace := [Upload ''h1'' ''PNG-1''], db := [''h1'' \<mapsto> ''https://img.example/PNG-1'']\<rparr>)
   \<and> upload_image bot_config quiet_env ''PNG-2'' ''h1'' True
        (empty_world\<lparr>trace := [Upload ''h1'' ''PNG-1''], db := [''h1'' \<mapsto> ''https://img.example/PNG-1'']\<rparr>)
       = (Inr (Some ''https://img.example/PNG-1''),
          empty_world\<lparr>trace := [Upload ''h1'' ''PNG-1''], db := [''h1'' \<mapsto> ''https://img.example/PNG-1'']\<rparr>)"
proof -
  let ?w1 = "empty_world\<lparr>trace := [Upload ''h1'' ''PNG-1''], db := [''h1'' \<mapsto> ''https://img.example/PNG-1'']\<rparr>"
  note t = upload_image_once_per_answered_hash[of empty_world bot_config quiet_env]
  note s = upload_image_once_per_answered_hash[of ?w1 bot_config quiet_env]
  have miss: "db empty_world ''h1'' = None" by (simp add: empty_world_def)
  have host: "image_host quiet_env (upload_api_url bot_config) (upload_api_key bot_config) ''PNG-1''
                = Inr ''https://img.example/PNG-1''"
    by (simp add: quiet_env_def)
  have w1: "empty_world\<lparr>trace := trace empty_world @ [Upload ''h1'' ''PNG-1''],
                 db := (db empty_world)(''h1'' \<mapsto> ''https://img.example/PNG-1'')\<rparr> = ?w1"
    by (simp add: empty_world_def)
  have hit: "db ?w1 ''h1'' = Some ''https://img.example/PNG-1''" by simp
  have b: "upload_image bot_config quiet_env ''PNG-1'' ''h1'' True empty_world =
       (Inr (Some ''https://img.example/PNG-1''),
        empty_world\<lparr>trace := trace empty_world @ [Upload ''h1'' ''PNG-1''],
                 db := (db empty_world)(''h1'' \<mapsto> ''https://img.example/PNG-1'')\<rparr>)"
    by (rule t[THEN conjunct2, THEN conjunct1, rule_format, OF conjI[OF miss host]])
  have c: "upload_image bot_config quiet_env ''PNG-2'' ''h1'' True ?w1
       = (Inr (Some ''https://img.example/PNG-1''), ?w1)"
    by (rule s[THEN conjunct1, rule_format, OF hit])
  from t[THEN conjunct2, THEN conjunct2, THEN conjunct2, THEN conjunct2, THEN conjunct2,
         THEN conjunct1, rule_format, OF conjI[OF miss host], of "''PNG-1''"]
  obtain w' where
    a: "upload_each bot_config quiet_env [(''PNG-1'', ''h1''), (''PNG-1'', ''h1'')] empty_world
          = ([Inr (Some ''https://img.example/PNG-1''), Inr (Some ''https://img.example/PNG-1'')], w')"
    and n: "upload_count ''h1'' w' = upload_count ''h1'' empty_world + 1"
    by blast
  have e: "upload_each bot_config quiet_env [(''PNG-1'', ''h1''), (''PNG-1'', ''h1'')] empty_world
          = ([Inr (Some ''https://img.example/PNG-1''), Inr (Some ''https://img.example/PNG-1'')], ?w1)"
    by (simp add: upload_image_def emit_def Let_def quiet_env_def bot_config_def empty_world_def)
  with a have "w' = ?w1" by simp
  with n have m: "upload_count ''h1'' ?w1 = 1" by (simp add: upload_count_def empty_world_def)
  from a \<open>w' = ?w1\<close> m b c show ?thesis by (simp only: w1 simp_thms)
qed

subsection \<open>The comment manager\<close>

lemma find_filter_conj:
  "find P (filter Q xs) = find (\<lambda>x. Q x \<and> P x) xs"
  by (induction xs) auto

lemma find_hd_filter:
  "find P xs = (case filter P xs of [] \<Rightarrow> None | x # ys \<Rightarrow> Some x)"
  by (induction xs) auto

lemma check_comments_eq:
  "check_comments cfg e (issue @ ''/comments'') w =
     (if list_status e = 200
      then (case bot_comments cfg issue w of [] \<Rightarrow> None | c # cs \<Rightarrow> Some (comment_url c))
      else None,
      emit (Get (issue @ ''/comments'')) w)"
  by (simp add: check_comments_def api_list_def Let_def find_filter_conj find_hd_filter
        bot_comments_def split: list.splits)

lemma bot_comments_trace [simp]:
  "bot_comments cfg issue (emit ev w) = bot_comments cfg issue w"
  "bot_comments cfg issue (log_message m w) = bot_comments cfg issue w"
  by (simp_all add: bot_comments_def emit_def log_message_def)

lemma comment_writes_emit:
  "comment_writes (emit ev w) = comment_writes w @ (if is_write ev then [ev] else [])"
  by (simp add: comment_writes_def emit_def)

lemma comment_writes_log [simp]: "comment_writes (log_message m w) = comment_writes w"
  by (simp add: log_message_def comment_writes_emit)

lemma api_create_effect:
  "snd (api_create cfg e api body w) =
     (case write_fault e of
        Some s \<Rightarrow> w
      | None \<Rightarrow> w\<lparr>comments := comments w @
           [\<lparr>comment_url = api @ ''/'' @ str_nat (length (comments w)), user_login = github_user cfg,
             comment_body = body, thread = api\<rparr>]\<rparr>)"
  by (simp add: api_create_def Let_def split: option.splits)

lemma api_update_effect:
  "snd (api_update e url body w) =
     (case write_fault e of
        Some s \<Rightarrow> w
      | None \<Rightarrow> w\<lparr>comments :=
           map (\<lambda>c. if comment_url c = url then c\<lparr>comment_body := body\<rparr> else c) (comments w)\<rparr>)"
proof -
  have "\<not> list_ex (\<lambda>c. comment_url c = url) cs \<Longrightarrow>
          map (\<lambda>c. if comment_url c = url then c\<lparr>comment_body := body\<rparr> else c) cs = cs" for cs
    by (induction cs) auto
  from this[of "comments w"] show ?thesis
    by (auto simp: api_update_def split: option.splits)
qed

lemma comments_log [simp]:
  "comments (log_message m w) = comments w" "comments (emit ev w) = comments w"
  by (simp_all add: log_message_def emit_def)

lemma post_comment_insert:
  assumes "check_comments cfg e (issue @ ''/comments'') w = (None, w1)"
    and "api_create cfg e (issue @ ''/comments'') (join_nl m)
           (emit (Post (issue @ ''/comments'') (join_nl m)) w1) = (r, w2)"
  shows "comments (post_comment cfg e issue m b w) = comments w2"
    and "comment_writes (post_comment cfg e issue m b w) = comment_writes w2"
  using assms by (cases r; simp add: post_comment_def Let_def)+

lemma post_comment_update:
  assumes "check_comments cfg e (issue @ ''/comments'') w = (Some cid, w1)"
    and "api_update e cid (join_nl m)
           (emit (Patch cid (join_nl m))
             (log_message (''['' @ repo_full_name b @ ''] Found a comment from us on the pull request; '' @ cid) w1))
         = (r, w2)"
  shows "comments (post_comment cfg e issue m b w) = comments w2"
    and "comment_writes (post_comment cfg e issue m b w) = comment_writes w2"
  using assms by (cases r; simp add: post_comment_def Let_def)+

lemma api_trace [simp]:
  "trace (snd (api_create cfg e api body w)) = trace w"
  "trace (snd (api_update e url body w)) = trace w"
  by (simp_all add: api_create_effect api_update_effect split: option.splits)

lemma comment_writes_api [simp]:
  "comment_writes (snd (api_create cfg e api body w)) = comment_writes w"
  "comment_writes (snd (api_update e url body w)) = comment_writes w"
  by (simp_all add: comment_writes_def)

lemma post_comment_when_none:
  assumes "list_status e \<noteq> 200 \<or> bot_comments cfg issue w = []"
  shows "comments (post_comment cfg e issue m b w) =
           (case write_fault e of
              Some s \<Rightarrow> comments w
            | None \<Rightarrow> comments w @
                [\<lparr>comment_url = issue @ ''/comments'' @ ''/'' @ str_nat (length (comments w)),
                  user_login = github_user cfg, comment_body = join_nl m,
                  thread = issue @ ''/comments''\<rparr>])"
    and "comment_writes (post_comment cfg e issue m b w) =
           comment_writes w @ [Post (issue @ ''/comments'') (join_nl m)]"
proof -
  let ?api = "issue @ ''/comments''"
  have c: "check_comments cfg e ?api w = (None, emit (Get ?api) w)"
    using assms by (auto simp: check_comments_eq)
  obtain r w2 where a: "api_create cfg e ?api (join_nl m) (emit (Post ?api (join_nl m)) (emit (Get ?api) w)) = (r, w2)"
    by (cases "api_create cfg e ?api (join_nl m) (emit (Post ?api (join_nl m)) (emit (Get ?api) w))")
  then have w2: "w2 = snd (api_create cfg e ?api (join_nl m) (emit (Post ?api (join_nl m)) (emit (Get ?api) w)))"
    by simp
  show "comments (post_comment cfg e issue m b w) =
           (case write_fault e of
              Some s \<Rightarrow> comments w
            | None \<Rightarrow> comments w @
                [\<lparr>comment_url = issue @ ''/comments'' @ ''/'' @ str_nat (length (comments w)),
                  user_login = github_user cfg, comment_body = join_nl m,
                  thread = issue @ ''/comments''\<rparr>])"
    unfolding post_comment_insert(1)[OF c a] w2 api_create_effect
    by (simp split: option.splits)
  show "comment_writes (post_comment cfg e issue m b w) =
           comment_writes w @ [Post (issue @ ''/comments'') (join_nl m)]"
    unfolding post_comment_insert(2)[OF c a] w2
    by (simp add: comment_writes_emit)
qed

lemma post_comment_when_found:
  assumes "list_status e = 200" "bot_comments cfg issue w = c # cs"
  shows "comments (post_comment cfg e issue m b w) =
           (case write_fault e of
              Some s \<Rightarrow> comments w
            | None \<Rightarrow> map (\<lambda>x. if comment_url x = comment_url c then x\<lparr>comment_body := join_nl m\<rparr> else x)
                        (comments w))"
    and "comment_writes (post_comment cfg e issue m b w) =
           comment_writes w @ [Patch (comment_url c) (join_nl m)]"
proof -
  let ?api = "issue @ ''/comments''"
  let ?w1 = "emit (Patch (comment_url c) (join_nl m))
             (log_message (''['' @ repo_full_name b @ ''] Found a comment from us on the pull request; '' @ comment_url c)
                (emit (Get ?api) w))"
  have ch: "check_comments cfg e ?api w = (Some (comment_url c), emit (Get ?api) w)"
    using assms by (simp add: check_comments_eq)
  obtain r w2 where a: "api_update e (comment_url c) (join_nl m) ?w1 = (r, w2)"
    by (cases "api_update e (comment_url c) (join_nl m) ?w1")
  then have w2: "w2 = snd (api_update e (comment_url c) (join_nl m) ?w1)" by simp
  show "comments (post_comment cfg e issue m b w) =
           (case write_fault e of
              Some s \<Rightarrow> comments w
            | None \<Rightarrow> map (\<lambda>x. if comment_url x = comment_url c then x\<lparr>comment_body := join_nl m\<rparr> else x)
                        (comments w))"
    unfolding post_comment_update(1)[OF ch a] w2 api_update_effect
    by (simp split: option.splits)
  show "comment_writes (post_comment cfg e issue m b w) =
           comment_writes w @ [Patch (comment_url c) (join_nl m)]"
    unfolding post_comment_update(2)[OF ch a] w2
    by (simp add: comment_writes_emit)
qed

lemma bot_comments_after_update:
  assumes "comments w' = map (\<lambda>x. if comment_url x = u then x\<lparr>comment_body := t\<rparr> else x) (comments w)"
  shows "bot_comments cfg issue w' =
           map (\<lambda>x. if comment_url x = u then x\<lparr>comment_body := t\<rparr> else x) (bot_comments cfg issue w)"
  unfolding bot_comments_def assms filter_map by (rule arg_cong[where f = "map _"]) (rule filter_cong, auto)

lemma bot_comments_after_insert:
  assumes "comments w' = comments w @ [\<lparr>comment_url = u, user_login = github_user cfg, comment_body = t,
                  thread = issue @ ''/comments''\<rparr>]"
  shows "bot_comments cfg issue w' = bot_comments cfg issue w @
           [\<lparr>comment_url = u, user_login = github_user cfg, comment_body = t, thread = issue @ ''/comments''\<rparr>]"
  unfolding bot_comments_def assms by simp

lemma bot_comments_same:
  "comments w' = comments w \<Longrightarrow> bot_comments cfg issue w' = bot_comments cfg issue w"
  by (simp add: bot_comments_def)

lemma post_comment_step:
  assumes "list_status e = 200"
  shows "bot_comments cfg issue (post_comment cfg e issue m b w) =
           (case bot_comments cfg issue w of
              [] \<Rightarrow> (case write_fault e of
                        Some s \<Rightarrow> []
                      | None \<Rightarrow> [\<lparr>comment_url = issue @ ''/comments'' @ ''/'' @ str_nat (length (comments w)),
                                  user_login = github_user cfg, comment_body = join_nl m,
                                  thread = issue @ ''/comments''\<rparr>])
            | c # cs \<Rightarrow> (case write_fault e of
                          Some s \<Rightarrow> c # cs
                        | None \<Rightarrow> map (\<lambda>x. if comment_url x = comment_url c
                                              then x\<lparr>comment_body := join_nl m\<rparr> else x) (c # cs)))"
proof (cases "bot_comments cfg issue w")
  case Nil
  then have n: "list_status e \<noteq> 200 \<or> bot_comments cfg issue w = []" by simp
  show ?thesis
  proof (cases "write_fault e")
    case None
    with post_comment_when_none(1)[OF n, of m b]
    have "comments (post_comment cfg e issue m b w) = comments w @
                [\<lparr>comment_url = issue @ ''/comments'' @ ''/'' @ str_nat (length (comments w)),
                  user_login = github_user cfg, comment_body = join_nl m,
                  thread = issue @ ''/comments''\<rparr>]" by simp
    from bot_comments_after_insert[OF this] Nil None show ?thesis by simp
  next
    case (Some s)
    with post_comment_when_none(1)[OF n, of m b]
    have "comments (post_comment cfg e issue m b w) = comments w" by simp
    from bot_comments_same[OF this] Nil Some show ?thesis by simp
  qed
next
  case (Cons c cs)
  show ?thesis
  proof (cases "write_fault e")
    case None
    with post_comment_when_found(1)[OF assms Cons, of m b]
    have "comments (post_comment cfg e issue m b w) =
            map (\<lambda>x. if comment_url x = comment_url c then x\<lparr>comment_body := join_nl m\<rparr> else x)
                        (comments w)" by simp
    from bot_comments_after_update[OF this] Cons None show ?thesis by simp
  next
    case (Some s)
    with post_comment_when_found(1)[OF assms Cons, of m b]
    have "comments (post_comment cfg e issue m b w) = comments w" by simp
    from bot_comments_same[OF this] Cons Some show ?thesis by simp
  qed
qed

lemma post_comment_keeps_single:
  assumes "list_status e = 200" "bot_comments cfg issue w = [c]"
  shows "\<exists>c'. bot_comments cfg issue (post_comment cfg e issue m b w) = [c']
            \<and> comment_url c' = comment_url c"
  using post_comment_step[OF assms(1), of cfg issue m b w] assms(2)
  by (cases "write_fault e") auto

lemma post_comment_count_le:
  assumes "list_status e = 200" "bot_count cfg issue w \<le> 1"
  shows "bot_count cfg issue (post_comment cfg e issue m b w) \<le> 1"
  using post_comment_step[OF assms(1), of cfg issue m b w] assms(2)
  by (cases "bot_comments cfg issue w"; cases "write_fault e") (auto simp: bot_count_def)

text \<open>
  C2, as amended. Let the listing of the comments answer 200. On an issue with at most
  one comment of the bot, two calls of \<^verbatim>\<open>post_comment\<close> for the same issue and identity
  leave at most one such comment after each call. When one exists, both calls PATCH the
  URL of that comment and neither POSTs; when none exists and the API accepts writes,
  the first call creates the comment and the second PATCHes it.
\<close>

theorem post_comment_upsert_when_listed:
  assumes "list_status e = 200" "bot_count cfg issue w \<le> 1"
  shows "bot_count cfg issue (post_comment cfg e issue m1 b1 w) \<le> 1
   \<and> bot_count cfg issue (post_comment cfg e issue m2 b2 (post_comment cfg e issue m1 b1 w)) \<le> 1
   \<and> (\<forall>c. bot_comments cfg issue w = [c] \<longrightarrow>
         comment_writes (post_comment cfg e issue m2 b2 (post_comment cfg e issue m1 b1 w))
           = comment_writes w @ [Patch (comment_url c) (join_nl m1), Patch (comment_url c) (join_nl m2)]
         \<and> bot_count cfg issue (post_comment cfg e issue m2 b2 (post_comment cfg e issue m1 b1 w)) = 1)
   \<and> (bot_comments cfg issue w = [] \<and> write_fault e = None \<longrightarrow>
         (\<exists>u. comment_writes (post_comment cfg e issue m2 b2 (post_comment cfg e issue m1 b1 w))
           = comment_writes w @ [Post (issue @ ''/comments'') (join_nl m1), Patch u (join_nl m2)])
         \<and> bot_count cfg issue (post_comment cfg e issue m2 b2 (post_comment cfg e issue m1 b1 w)) = 1)"
proof -
  let ?w1 = "post_comment cfg e issue m1 b1 w"
  let ?w2 = "post_comment cfg e issue m2 b2 ?w1"
  have le1: "bot_count cfg issue ?w1 \<le> 1" by (rule post_comment_count_le[OF assms])
  have le2: "bot_count cfg issue ?w2 \<le> 1" by (rule post_comment_count_le[OF assms(1) le1])
  have one: "comment_writes ?w2
           = comment_writes w @ [Patch (comment_url c) (join_nl m1), Patch (comment_url c) (join_nl m2)]
         \<and> bot_count cfg issue ?w2 = 1" if c: "bot_comments cfg issue w = [c]" for c
  proof -
    from post_comment_keeps_single[OF assms(1) c, of m1 b1]
    obtain c1 where c1: "bot_comments cfg issue ?w1 = [c1]" "comment_url c1 = comment_url c" by blast
    from post_comment_keeps_single[OF assms(1) c1(1), of m2 b2]
    obtain c2 where c2: "bot_comments cfg issue ?w2 = [c2]" by blast
    have "comment_writes ?w1 = comment_writes w @ [Patch (comment_url c) (join_nl m1)]"
      by (rule post_comment_when_found(2)[OF assms(1) c])
    moreover have "comment_writes ?w2 = comment_writes ?w1 @ [Patch (comment_url c1) (join_nl m2)]"
      by (rule post_comment_when_found(2)[OF assms(1) c1(1)])
    ultimately show ?thesis using c1(2) c2 by (simp add: bot_count_def)
  qed
  have none: "(\<exists>u. comment_writes ?w2
           = comment_writes w @ [Post (issue @ ''/comments'') (join_nl m1), Patch u (join_nl m2)])
         \<and> bot_count cfg issue ?w2 = 1" if n: "bot_comments cfg issue w = []" and f: "write_fault e = None"
  proof -
    from post_comment_step[OF assms(1), of cfg issue m1 b1 w] n f
    obtain c1 where c1: "bot_comments cfg issue ?w1 = [c1]" by simp
    from post_comment_keeps_single[OF assms(1) c1, of m2 b2]
    obtain c2 where c2: "bot_comments cfg issue ?w2 = [c2]" by blast
    have "comment_writes ?w1 = comment_writes w @ [Post (issue @ ''/comments'') (join_nl m1)]"
      by (rule post_comment_when_none(2)) (simp add: n)
    moreover have "comment_writes ?w2 = comment_writes ?w1 @ [Patch (comment_url c1) (join_nl m2)]"
      by (rule post_comment_when_found(2)[OF assms(1) c1])
    ultimately show ?thesis using c2 by (auto simp: bot_count_def)
  qed
  from le1 le2 one none show ?thesis by blast
qed

lemma commented_world_bot:
  "bot_comments bot_config issue7 commented_world =
     [\<lparr>comment_url = ''https://api.github.com/repos/o/r/issues/comments/1'',
       user_login = ''iconbot'', comment_body = ''Icons with diff:'',
       thread = ''https://api.github.com/repos/o/r/issues/7/comments''\<rparr>]"
  by (simp add: bot_comments_def commented_world_def empty_world_def bot_config_def issue7_def)

theorem post_comment_upsert_when_listed_witness:
  "list_status quiet_env = 200
   \<and> bot_count bot_config issue7 commented_world \<le> 1
   \<and> comment_writes
        (post_comment bot_config quiet_env issue7 [''Icons with diff:'', ''second''] base_side0
          (post_comment bot_config quiet_env issue7 [''Icons with diff:'', ''first''] base_side0 commented_world))
      = [Patch ''https://api.github.com/repos/o/r/issues/comments/1'' ''Icons with diff:\<newline>first'',
         Patch ''https://api.github.com/repos/o/r/issues/comments/1'' ''Icons with diff:\<newline>second'']
   \<and> bot_count bot_config issue7
        (post_comment bot_config quiet_env issue7 [''Icons with diff:'', ''second''] base_side0
          (post_comment bot_config quiet_env issue7 [''Icons with diff:'', ''first''] base_side0 commented_world))
      = 1"
proof -
  have l: "list_status quiet_env = 200" by (simp add: quiet_env_def)
  have c: "bot_count bot_config issue7 commented_world \<le> 1"
    by (simp add: bot_count_def commented_world_bot)
  have w: "comment_writes commented_world = []"
    by (simp add: comment_writes_def commented_world_def empty_world_def)
  from post_comment_upsert_when_listed[OF l c, of "[''Icons with diff:'', ''first'']" base_side0
         "[''Icons with diff:'', ''second'']" base_side0] commented_world_bot
  show ?thesis using l c by (simp add: w)
qed

text \<open>
  C2 as stated fails when the listing does not answer 200: the issue has one comment of
  the bot, and after two calls it has three.
\<close>

theorem post_comment_upsert_counterexample:
  "bot_count bot_config issue7 commented_world \<le> 1
   \<and> bot_count bot_config issue7
        (post_comment bot_config failing_list_env issue7 [''Icons with diff:'', ''second''] base_side0
          (post_comment bot_config failing_list_env issue7 [''Icons with diff:'', ''first''] base_side0 commented_world))
      = 3
   \<and> \<not> bot_count bot_config issue7
        (post_comment bot_config failing_list_env issue7 [''Icons with diff:'', ''second''] base_side0
          (post_comment bot_config failing_list_env issue7 [''Icons with diff:'', ''first''] base_side0 commented_world))
      \<le> 1"
proof -
  let ?w1 = "post_comment bot_config failing_list_env issue7 [''Icons with diff:'', ''first''] base_side0 commented_world"
  let ?w2 = "post_comment bot_config failing_list_env issue7 [''Icons with diff:'', ''second''] base_side0 ?w1"
  have l: "list_status failing_list_env \<noteq> 200" and f: "write_fault failing_list_env = None"
    by (simp_all add: failing_list_env_def quiet_env_def)
  have step: "bot_count bot_config issue7 (post_comment bot_config failing_list_env issue7 m b w)
                = bot_count bot_config issue7 w + 1" for m b w
  proof -
    from post_comment_when_none(1)[of failing_list_env bot_config issue7 w m b] l f
    have "comments (post_comment bot_config failing_list_env issue7 m b w) = comments w @
                [\<lparr>comment_url = issue7 @ ''/comments'' @ ''/'' @ str_nat (length (comments w)),
                  user_login = github_user bot_config, comment_body = join_nl m,
                  thread = issue7 @ ''/comments''\<rparr>]" by simp
    from bot_comments_after_insert[OF this] show ?thesis by (simp add: bot_count_def)
  qed
  have 0: "bot_count bot_config issue7 commented_world = 1"
    by (simp add: bot_count_def commented_world_bot)
  have "bot_count bot_config issue7 ?w2 = 3" by (simp add: step 0)
  with 0 show ?thesis by simp
qed

subsection \<open>The failed listing\<close>

text \<open>
  C10. When the GET of the comments list answers any status but 200, \<^verbatim>\<open>check_comments\<close>
  returns \<^verbatim>\<open>None\<close> whatever comments exist, so \<^verbatim>\<open>post_comment\<close> takes the insert path: it
  POSTs to the comments URL of the issue, and when the API accepts the write the issue
  has one more comment of the bot than before, a second one if it had one.
\<close>

theorem failed_listing_inserts_again:
  "list_status e \<noteq> 200 \<longrightarrow>
     fst (check_comments cfg e api w) = None
     \<and> comment_writes (post_comment cfg e issue m b w)
         = comment_writes w @ [Post (issue @ ''/comments'') (join_nl m)]
     \<and> (write_fault e = None \<longrightarrow>
          bot_count cfg issue (post_comment cfg e issue m b w) = bot_count cfg issue w + 1)"
proof (intro impI conjI)
  assume l: "list_status e \<noteq> 200"
  then show "fst (check_comments cfg e api w) = None"
    by (simp add: check_comments_def api_list_def Let_def)
  from l have n: "list_status e \<noteq> 200 \<or> bot_comments cfg issue w = []" by simp
  show "comment_writes (post_comment cfg e issue m b w)
         = comment_writes w @ [Post (issue @ ''/comments'') (join_nl m)]"
    by (rule post_comment_when_none(2)[OF n])
  assume f: "write_fault e = None"
  with post_comment_when_none(1)[OF n, of m b]
  have "comments (post_comment cfg e issue m b w) = comments w @
                [\<lparr>comment_url = issue @ ''/comments'' @ ''/'' @ str_nat (length (comments w)),
                  user_login = github_user cfg, comment_body = join_nl m,
                  thread = issue @ ''/comments''\<rparr>]" by simp
  from bot_comments_after_insert[OF this]
  show "bot_count cfg issue (post_comment cfg e issue m b w) = bot_count cfg issue w + 1"
    by (simp add: bot_count_def)
qed

theorem failed_listing_inserts_again_witness:
  "list_status failing_list_env \<noteq> 200
   \<and> write_fault failing_list_env = None
   \<and> bot_count bot_config issue7 commented_world = 1
   \<and> fst (check_comments bot_config failing_list_env (issue7 @ ''/comments'') commented_world) = None
   \<and> comment_writes (post_comment bot_config failing_list_env issue7 [''Icons with diff:'', ''again''] base_side0 commented_world)
       = [Post ''https://api.github.com/repos/o/r/issues/7/comments'' ''Icons with diff:\<newline>again'']
   \<and> bot_count bot_config issue7
        (post_comment bot_config failing_list_env issue7 [''Icons with diff:'', ''again''] base_side0 commented_world) = 2"
proof -
  have l: "list_status failing_list_env \<noteq> 200" and f: "write_fault failing_list_env = None"
    by (simp_all add: failing_list_env_def quiet_env_def)
  have 0: "bot_count bot_config issue7 commented_world = 1"
    by (simp add: bot_count_def commented_world_bot)
  have w: "comment_writes commented_world = []"
    by (simp add: comment_writes_def commented_world_def empty_world_def)
  from failed_listing_inserts_again[of failing_list_env bot_config "issue7 @ ''/comments''" commented_world
         issue7 "[''Icons with diff:'', ''again'']" base_side0]
  show ?thesis using l f 0 by (simp add: w issue7_def)
qed

subsection \<open>One pass of the loop of check_icons\<close>

lemma check_icon_unfold:
  "check_icon cfg e b h issue send icon msgs w =
     (if status_code (http_get e (blob_url h icon)) = 404 then
        (Inr msgs, remove_if_exists (base_path e b icon) (fetched e b h icon w))
      else
        (let d = compare_two_icon_files e (fs (staged e b h icon w)) (base_path e b icon) (scratch_new icon);
             w4 = emit (Compare (base_path e b icon) (scratch_new icon)) (staged e b h icon w)
         in if d = [] then (Inr msgs, w4)
            else case render_rows cfg e send d (block_header icon) w4 of
                   (Inl err, w5) \<Rightarrow> (Inl err, w5)
                 | (Inr rows, w5) \<Rightarrow>
                     (Inr (if length (rows @ [''</details>'']) > 4
                           then msgs @ [join_nl (rows @ [''</details>''])] else msgs),
                      tidy cfg e b issue icon (rows @ [''</details>'']) w5)))"
proof -
  note defs = check_icon_def blob_url_def scratch_old_def scratch_new_def base_path_def fetched_def
    staged_def block_header_def tidy_def Let_def
  consider (ok) "status_code (http_get e (repo_html_url b @ ''/blob/'' @ ref b @ ''/'' @ icon)) = 200"
    | (absent) "status_code (http_get e (repo_html_url b @ ''/blob/'' @ ref b @ ''/'' @ icon)) = 404"
    | (other) "status_code (http_get e (repo_html_url b @ ''/blob/'' @ ref b @ ''/'' @ icon)) \<noteq> 200"
              "status_code (http_get e (repo_html_url b @ ''/blob/'' @ ref b @ ''/'' @ icon)) \<noteq> 404"
    by blast
  then show ?thesis
  proof cases
    case ok
    then show ?thesis by (cases "DEBUG cfg") (simp_all add: defs split: prod.splits sum.splits)
  next
    case absent
    then show ?thesis by (cases "DEBUG cfg") (simp_all add: defs split: prod.splits sum.splits)
  next
    case other
    then show ?thesis by (cases "DEBUG cfg") (simp_all add: defs split: prod.splits sum.splits)
  qed
qed

lemma world_after_write [simp]:
  "trace (write_file p d w) = trace w" "db (write_file p d w) = db w"
  "comments (write_file p d w) = comments w" "fs (write_file p d w) = (fs w)(p \<mapsto> d)"
  by (simp_all add: write_file_def)

lemma world_after_remove [simp]:
  "trace (remove_file p w) = trace w" "db (remove_file p w) = db w"
  "comments (remove_file p w) = comments w" "fs (remove_file p w) = (fs w)(p := None)"
  by (simp_all add: remove_file_def)

lemma world_after_remove_if_exists [simp]:
  "trace (remove_if_exists p w) = trace w" "db (remove_if_exists p w) = db w"
  "comments (remove_if_exists p w) = comments w"
  "fs (remove_if_exists p w) = (if p = [] then fs w else (fs w)(p := None))"
  by (auto simp: remove_if_exists_def path_exists_def)

lemma world_after_emit [simp]:
  "trace (emit ev w) = trace w @ [ev]" "db (emit ev w) = db w" "fs (emit ev w) = fs w"
  by (simp_all add: emit_def)

lemma scratch_paths [simp]:
  "scratch_old icon \<noteq> []" "scratch_new icon \<noteq> []" "scratch_old icon \<noteq> scratch_new icon"
  "scratch_new icon \<noteq> scratch_old icon"
  by (simp_all add: scratch_old_def scratch_new_def)

lemma fetched_world [simp]:
  "trace (fetched e b h icon w) = trace w @ [Get (blob_url b icon), Get (blob_url h icon)]"
  "db (fetched e b h icon w) = db w" "comments (fetched e b h icon w) = comments w"
  "fs (fetched e b h icon w) =
     (if status_code (http_get e (blob_url b icon)) = 200
      then (fs w)(scratch_old icon \<mapsto> content (http_get e (blob_url b icon))) else fs w)"
  by (simp_all add: fetched_def Let_def)

lemma staged_world [simp]:
  "trace (staged e b h icon w) = trace w @ [Get (blob_url b icon), Get (blob_url h icon)]"
  "db (staged e b h icon w) = db w" "comments (staged e b h icon w) = comments w"
  "fs (staged e b h icon w) =
     (if status_code (http_get e (blob_url h icon)) = 200
      then (fs (fetched e b h icon w))(scratch_new icon \<mapsto> content (http_get e (blob_url h icon)))
      else fs (fetched e b h icon w))"
  by (simp_all add: staged_def)

lemma tidy_world [simp]:
  "trace (tidy cfg e b issue icon msg w) = trace w" "db (tidy cfg e b issue icon msg w) = db w"
  "comments (tidy cfg e b issue icon msg w) = comments w"
  by (simp_all add: tidy_def)

lemma upload_image_world:
  "\<exists>ups. trace (snd (upload_image cfg e f h send w)) = trace w @ ups \<and> list_all is_upload ups"
  "comments (snd (upload_image cfg e f h send w)) = comments w"
  by (auto simp: upload_image_def Let_def split: option.splits sum.splits intro: exI[of _ "[]"])

lemma image_link_world:
  "\<exists>ups. trace (snd (image_link cfg e send key p img h w)) = trace w @ ups \<and> list_all is_upload ups"
  "comments (snd (image_link cfg e send key p img h w)) = comments w"
proof -
  show "\<exists>ups. trace (snd (image_link cfg e send key p img h w)) = trace w @ ups \<and> list_all is_upload ups"
  proof (cases img)
    case None
    then show ?thesis by (simp add: image_link_def)
  next
    case (Some png)
    from upload_image_world(1)[of cfg e png h send "write_file p png w"]
    obtain ups where "trace (snd (upload_image cfg e png h send (write_file p png w))) = trace w @ ups"
      "list_all is_upload ups" by auto
    with Some show ?thesis
      by (cases "upload_image cfg e png h send (write_file p png w)")
         (auto simp: image_link_def split: sum.splits)
  qed
  show "comments (snd (image_link cfg e send key p img h w)) = comments w"
  proof (cases img)
    case None
    then show ?thesis by (simp add: image_link_def)
  next
    case (Some png)
    from upload_image_world(2)[of cfg e png h send "write_file p png w"] Some show ?thesis
      by (cases "upload_image cfg e png h send (write_file p png w)")
         (auto simp: image_link_def split: sum.splits)
  qed
qed

lemma render_rows_world:
  "(\<exists>ups. trace (snd (render_rows cfg e send d msg w)) = trace w @ ups \<and> list_all is_upload ups)
   \<and> comments (snd (render_rows cfg e send d msg w)) = comments w"
proof (induction cfg e send d msg w rule: render_rows.induct)
  case (1 cfg e send msg w)
  then show ?case by simp
next
  case (2 cfg e send key entry rest msg w)
  show ?case
  proof (cases "status entry = ''Equal''")
    case True
    with "2.IH"(1) show ?thesis by simp
  next
    case False
    let ?pa = "''./icon_dump/old_'' @ key @ ''.png''"
    let ?pb = "''./icon_dump/new_'' @ key @ ''.png''"
    obtain r1 w1 where l1: "image_link cfg e send key ?pa (img_a entry) (img_a_hash entry) w = (r1, w1)"
      by (cases "image_link cfg e send key ?pa (img_a entry) (img_a_hash entry) w")
    from image_link_world[of cfg e send key ?pa "img_a entry" "img_a_hash entry" w] l1
    obtain ups1 where t1: "trace w1 = trace w @ ups1" "list_all is_upload ups1" "comments w1 = comments w"
      by auto
    show ?thesis
    proof (cases r1)
      case (Inl err)
      with False l1 t1 show ?thesis by auto
    next
      case (Inr url_a)
      obtain r2 w2 where l2: "image_link cfg e send key ?pb (img_b entry) (img_b_hash entry) w1 = (r2, w2)"
        by (cases "image_link cfg e send key ?pb (img_b entry) (img_b_hash entry) w1")
      from image_link_world[of cfg e send key ?pb "img_b entry" "img_b_hash entry" w1] l2
      obtain ups2 where t2: "trace w2 = trace w1 @ ups2" "list_all is_upload ups2" "comments w2 = comments w1"
        by auto
      show ?thesis
      proof (cases r2)
        case (Inl err)
        with False l1 l2 Inr t1 t2 show ?thesis by auto
      next
        case url_b: (Inr url_b)
        from "2.IH"(2)[OF False l1[symmetric] Inr l2[symmetric] url_b]
        obtain ups3 where t3:
          "trace (snd (render_rows cfg e send rest
                 (msg @ [key @ ''|'' @ url_a @ ''|'' @ url_b @ ''|'' @ status entry]) w2)) = trace w2 @ ups3"
          "list_all is_upload ups3"
          "comments (snd (render_rows cfg e send rest
                 (msg @ [key @ ''|'' @ url_a @ ''|'' @ url_b @ ''|'' @ status entry]) w2)) = comments w2"
          by auto
        have "render_rows cfg e send ((key, entry) # rest) msg w =
                render_rows cfg e send rest
                 (msg @ [key @ ''|'' @ url_a @ ''|'' @ url_b @ ''|'' @ status entry]) w2"
          using False l1 l2 Inr url_b by simp
        with t1 t2 t3 show ?thesis by auto
      qed
    qed
  qed
qed

lemma render_rows_all_equal:
  "\<not> list_ex not_equal d \<Longrightarrow> render_rows cfg e send d msg w = (Inr msg, w)"
  by (induction d) (auto simp: not_equal_def)

lemma render_rows_drops_equal:
  "render_rows cfg e send d msg w = render_rows cfg e send (filter not_equal d) msg w"
proof (induction cfg e send d msg w rule: render_rows.induct)
  case (1 cfg e send msg w)
  then show ?case by simp
next
  case (2 cfg e send key entry rest msg w)
  show ?case
  proof (cases "status entry = ''Equal''")
    case True
    with "2.IH"(1) show ?thesis by (simp add: not_equal_def)
  next
    case False
    then have f: "filter not_equal ((key, entry) # rest) = (key, entry) # filter not_equal rest"
      by (simp add: not_equal_def)
    show ?thesis unfolding f using False "2.IH"(2)
      by (auto split: prod.splits sum.splits)
  qed
qed

subsection \<open>The report\<close>

lemma render_rows_shape:
  "render_rows cfg e send d msg w = (Inr rows, w') \<Longrightarrow>
     \<exists>links. length links = length (filter not_equal d)
        \<and> rows = msg @ map table_row (zip (filter not_equal d) links)"
proof (induction cfg e send d msg w arbitrary: rows w' rule: render_rows.induct)
  case (1 cfg e send msg w)
  then show ?case by simp
next
  case (2 cfg e send key entry rest msg w)
  show ?case
  proof (cases "status entry = ''Equal''")
    case True
    with "2.prems" have "render_rows cfg e send rest msg w = (Inr rows, w')" by simp
    from "2.IH"(1)[OF True this] True show ?thesis by (simp add: not_equal_def)
  next
    case False
    let ?pa = "''./icon_dump/old_'' @ key @ ''.png''"
    let ?pb = "''./icon_dump/new_'' @ key @ ''.png''"
    obtain r1 w1 where l1: "image_link cfg e send key ?pa (img_a entry) (img_a_hash entry) w = (r1, w1)"
      by (cases "image_link cfg e send key ?pa (img_a entry) (img_a_hash entry) w")
    from "2.prems" False l1 obtain url_a where r1: "r1 = Inr url_a" by (cases r1) auto
    obtain r2 w2 where l2: "image_link cfg e send key ?pb (img_b entry) (img_b_hash entry) w1 = (r2, w2)"
      by (cases "image_link cfg e send key ?pb (img_b entry) (img_b_hash entry) w1")
    from "2.prems" False l1 r1 l2 obtain url_b where r2: "r2 = Inr url_b" by (cases r2) auto
    let ?row = "key @ ''|'' @ url_a @ ''|'' @ url_b @ ''|'' @ status entry"
    from "2.prems" False l1 r1 l2 r2
    have "render_rows cfg e send rest (msg @ [?row]) w2 = (Inr rows, w')" by simp
    from "2.IH"(2)[OF False l1[symmetric] r1 l2[symmetric] r2 this]
    obtain links where links: "length links = length (filter not_equal rest)"
      "rows = (msg @ [?row]) @ map table_row (zip (filter not_equal rest) links)" by blast
    have f: "filter not_equal ((key, entry) # rest) = (key, entry) # filter not_equal rest"
      using False by (simp add: not_equal_def)
    have "length ((url_a, url_b) # links) = length (filter not_equal ((key, entry) # rest))"
      using links(1) f by simp
    moreover have "rows = msg @ map table_row (zip (filter not_equal ((key, entry) # rest)) ((url_a, url_b) # links))"
      unfolding f using links(2) by (simp add: table_row_def)
    ultimately show ?thesis by blast
  qed
qed

lemma check_icon_no_changes:
  assumes "\<not> list_ex not_equal
             (compare_two_icon_files e (fs (staged e b h icon w)) (base_path e b icon) (scratch_new icon))"
  shows "fst (check_icon cfg e b h issue send icon msgs w) = Inr msgs"
    and "trace (snd (check_icon cfg e b h issue send icon msgs w)) = trace w @ icon_io e b h icon"
    and "comments (snd (check_icon cfg e b h issue send icon msgs w)) = comments w"
proof -
  let ?d = "compare_two_icon_files e (fs (staged e b h icon w)) (base_path e b icon) (scratch_new icon)"
  let ?w4 = "emit (Compare (base_path e b icon) (scratch_new icon)) (staged e b h icon w)"
  have r: "render_rows cfg e send ?d (block_header icon) ?w4 = (Inr (block_header icon), ?w4)"
    by (rule render_rows_all_equal[OF assms])
  have l: "length (block_header icon) = 3" by (simp add: block_header_def)
  show "fst (check_icon cfg e b h issue send icon msgs w) = Inr msgs"
    unfolding check_icon_unfold Let_def r by (simp add: l)
  show "trace (snd (check_icon cfg e b h issue send icon msgs w)) = trace w @ icon_io e b h icon"
    unfolding check_icon_unfold Let_def r by (simp add: l icon_io_def)
  show "comments (snd (check_icon cfg e b h issue send icon msgs w)) = comments w"
    unfolding check_icon_unfold Let_def r by (simp add: l comments_log)
qed

lemma icons_loop_no_changes:
  assumes "\<forall>files pa pb. \<not> list_ex not_equal (compare_two_icon_files e files pa pb)"
  shows "\<exists>w'. icons_loop cfg e b h issue send icons msgs w = (Inr msgs, w')
           \<and> trace w' = trace w @ concat (map (icon_io e b h) icons)
           \<and> comments w' = comments w"
proof (induction icons arbitrary: w)
  case Nil
  then show ?case by simp
next
  case (Cons icon icons)
  from assms have a: "\<not> list_ex not_equal
             (compare_two_icon_files e (fs (staged e b h icon w)) (base_path e b icon) (scratch_new icon))"
    by blast
  obtain r w1 where c: "check_icon cfg e b h issue send icon msgs w = (r, w1)"
    by (cases "check_icon cfg e b h issue send icon msgs w")
  from check_icon_no_changes[OF a, of cfg issue send msgs] c
  have r: "r = Inr msgs" and t1: "trace w1 = trace w @ icon_io e b h icon"
    and c1: "comments w1 = comments w" by simp_all
  from Cons.IH[of w1] obtain w' where
    2: "icons_loop cfg e b h issue send icons msgs w1 = (Inr msgs, w')"
    and 3: "trace w' = trace w1 @ concat (map (icon_io e b h) icons)"
    and 4: "comments w' = comments w1" by blast
  have "icons_loop cfg e b h issue send (icon # icons) msgs w = (Inr msgs, w')"
    using c r 2 by simp
  moreover have "trace w' = trace w @ concat (map (icon_io e b h) (icon # icons))"
    using 3 t1 by simp
  moreover have "comments w' = comments w"
    using 4 c1 by simp
  ultimately show ?case by blast
qed

text \<open>
  C7. Equal entries never appear in the rendered report: the rows, the uploads and the
  result of the loop over the entries are those of the entries that are not Equal, one
  row per such entry, in order, with its key and status. A path whose comparison yields
  no other entry adds no block to the report. When the comparison yields only Equal
  entries for every changed path, \<^verbatim>\<open>check_icons\<close> returns with the report empty and makes
  no comment call at all: the calls it made are the fetches and the comparisons, and
  the comments are as they were.
\<close>

theorem equal_entries_not_reported:
  "render_rows cfg e send d msg w = render_rows cfg e send (filter not_equal d) msg w
   \<and> (\<forall>rows w'. render_rows cfg e send d msg w = (Inr rows, w') \<longrightarrow>
         (\<exists>links. length links = length (filter not_equal d)
            \<and> rows = msg @ map table_row (zip (filter not_equal d) links)))
   \<and> (\<not> list_ex not_equal
           (compare_two_icon_files e (fs (staged e b h icon w)) (base_path e b icon) (scratch_new icon)) \<longrightarrow>
         fst (check_icon cfg e b h issue send icon msgs w) = Inr msgs)
   \<and> ((\<forall>files pa pb. \<not> list_ex not_equal (compare_two_icon_files e files pa pb)) \<longrightarrow>
         (\<exists>w'. check_icons cfg e icons b h issue send w = (Inr (), w')
            \<and> trace w' = trace w @ concat (map (icon_io e b h) icons)
            \<and> comment_writes w' = comment_writes w
            \<and> comments w' = comments w))"
proof (intro conjI allI impI)
  show "render_rows cfg e send d msg w = render_rows cfg e send (filter not_equal d) msg w"
    by (rule render_rows_drops_equal)
next
  fix rows w' assume "render_rows cfg e send d msg w = (Inr rows, w')"
  then show "\<exists>links. length links = length (filter not_equal d)
            \<and> rows = msg @ map table_row (zip (filter not_equal d) links)"
    by (rule render_rows_shape)
next
  assume "\<not> list_ex not_equal
           (compare_two_icon_files e (fs (staged e b h icon w)) (base_path e b icon) (scratch_new icon))"
  then show "fst (check_icon cfg e b h issue send icon msgs w) = Inr msgs"
    by (rule check_icon_no_changes(1))
next
  assume a: "\<forall>files pa pb. \<not> list_ex not_equal (compare_two_icon_files e files pa pb)"
  from icons_loop_no_changes[OF a, of cfg b h issue send icons "[''Icons with diff:'']" w]
  obtain w' where 1: "icons_loop cfg e b h issue send icons [''Icons with diff:''] w = (Inr [''Icons with diff:''], w')"
    and 2: "trace w' = trace w @ concat (map (icon_io e b h) icons)"
    and 3: "comments w' = comments w" by blast
  have io: "filter is_write (concat (map (icon_io e b h) icons)) = []"
    by (induction icons) (auto simp: icon_io_def)
  have "check_icons cfg e icons b h issue send w = (Inr (), w')"
    by (simp add: check_icons_def 1)
  moreover have "comment_writes w' = comment_writes w"
    by (simp add: comment_writes_def 2 io)
  ultimately show "\<exists>w'. check_icons cfg e icons b h issue send w = (Inr (), w')
            \<and> trace w' = trace w @ concat (map (icon_io e b h) icons)
            \<and> comment_writes w' = comment_writes w
            \<and> comments w' = comments w"
    using 2 3 by blast
qed

lemma test_icon_name: "re_sub i_name_match 0 ''icons/test.dmi'' = ''test''"
  by code_simp

lemma test_icon_paths:
  "scratch_old ''icons/test.dmi'' = ''./icon_dump/old_test.dmi''"
  "scratch_new ''icons/test.dmi'' = ''./icon_dump/new_test.dmi''"
  "blob_url base_side0 ''icons/test.dmi'' = base_blob0"
  "blob_url head_side0 ''icons/test.dmi'' = head_blob0"
  unfolding scratch_old_def scratch_new_def test_icon_name
  by (simp_all add: blob_url_def base_side0_def head_side0_def base_blob0_def head_blob0_def)

lemma blobs_differ: "base_blob0 \<noteq> head_blob0" "head_blob0 \<noteq> base_blob0"
  by (simp_all add: base_blob0_def head_blob0_def)

theorem equal_entries_not_reported_witness:
  "(\<forall>files pa pb. \<not> list_ex not_equal (compare_two_icon_files equal_env files pa pb))
   \<and> (\<exists>w'. check_icons bot_config equal_env [''icons/test.dmi''] base_side0 head_side0 issue7 True empty_world
              = (Inr (), w')
         \<and> trace w' = [Get base_blob0, Get head_blob0,
                        Compare ''./icon_dump/old_test.dmi'' ''./icon_dump/new_test.dmi'']
         \<and> comments w' = [])"
proof -
  have a: "\<forall>files pa pb. \<not> list_ex not_equal (compare_two_icon_files equal_env files pa pb)"
    by (simp add: equal_env_def not_equal_def)
  have io: "icon_io equal_env base_side0 head_side0 ''icons/test.dmi''
              = [Get base_blob0, Get head_blob0,
                 Compare ''./icon_dump/old_test.dmi'' ''./icon_dump/new_test.dmi'']"
    by (simp add: icon_io_def base_path_def test_icon_paths equal_env_def)
  from equal_entries_not_reported[of bot_config equal_env True "[]" "[]" empty_world base_side0 head_side0
         "''icons/test.dmi''" issue7 "[]" "[''icons/test.dmi'']"] a
  obtain w' where
    "check_icons bot_config equal_env [''icons/test.dmi''] base_side0 head_side0 issue7 True empty_world = (Inr (), w')"
    "trace w' = trace empty_world @ concat (map (icon_io equal_env base_side0 head_side0) [''icons/test.dmi''])"
    "comments w' = comments empty_world"
    by blast
  then have "check_icons bot_config equal_env [''icons/test.dmi''] base_side0 head_side0 issue7 True empty_world = (Inr (), w')
         \<and> trace w' = [Get base_blob0, Get head_blob0,
                        Compare ''./icon_dump/old_test.dmi'' ''./icon_dump/new_test.dmi'']
         \<and> comments w' = []"
    by (simp add: io empty_world_def)
  with a show ?thesis by blast
qed

subsection \<open>The deleted file\<close>

text \<open>
  C6. When the fetch of the head side answers 404, the pass over that path returns with
  the report as it was: the only calls made are the two fetches, so no comparison is
  made and no block is added, and the loop goes on to the next path with the same
  report. A copy of the base side staged for the path is gone when the pass returns: the
  scratch file of the base side does not exist afterwards unless the base side answered
  404 as well, in which case nothing was staged and the scratch files are as they were.
\<close>

theorem head_404_skips_and_releases:
  "status_code (http_get e (blob_url h icon)) = 404 \<longrightarrow>
     (\<exists>w'. check_icon cfg e b h issue send icon msgs w = (Inr msgs, w')
        \<and> trace w' = trace w @ [Get (blob_url b icon), Get (blob_url h icon)]
        \<and> fs w' = (if status_code (http_get e (blob_url b icon)) = 404 then fs w
                    else (fs w)(scratch_old icon := None))
        \<and> (status_code (http_get e (blob_url b icon)) = 200 \<longrightarrow>
              fs (fetched e b h icon w) (scratch_old icon) = Some (content (http_get e (blob_url b icon)))
              \<and> fs w' (scratch_old icon) = None)
        \<and> db w' = db w \<and> comments w' = comments w
        \<and> icons_loop cfg e b h issue send (icon # icons) msgs w
             = icons_loop cfg e b h issue send icons msgs w')"
proof
  assume h404: "status_code (http_get e (blob_url h icon)) = 404"
  let ?w' = "remove_if_exists (base_path e b icon) (fetched e b h icon w)"
  have c: "check_icon cfg e b h issue send icon msgs w = (Inr msgs, ?w')"
    using h404 by (simp add: check_icon_unfold)
  have t: "trace ?w' = trace w @ [Get (blob_url b icon), Get (blob_url h icon)]" by simp
  have f: "fs ?w' = (if status_code (http_get e (blob_url b icon)) = 404 then fs w
                    else (fs w)(scratch_old icon := None))"
    by (auto simp: base_path_def)
  have s: "status_code (http_get e (blob_url b icon)) = 200 \<longrightarrow>
              fs (fetched e b h icon w) (scratch_old icon) = Some (content (http_get e (blob_url b icon)))
              \<and> fs ?w' (scratch_old icon) = None"
    by (simp add: base_path_def)
  have d: "db ?w' = db w \<and> comments ?w' = comments w" by simp
  have l: "icons_loop cfg e b h issue send (icon # icons) msgs w
             = icons_loop cfg e b h issue send icons msgs ?w'"
    by (simp add: c)
  from c t f s d l show "\<exists>w'. check_icon cfg e b h issue send icon msgs w = (Inr msgs, w')
        \<and> trace w' = trace w @ [Get (blob_url b icon), Get (blob_url h icon)]
        \<and> fs w' = (if status_code (http_get e (blob_url b icon)) = 404 then fs w
                    else (fs w)(scratch_old icon := None))
        \<and> (status_code (http_get e (blob_url b icon)) = 200 \<longrightarrow>
              fs (fetched e b h icon w) (scratch_old icon) = Some (content (http_get e (blob_url b icon)))
              \<and> fs w' (scratch_old icon) = None)
        \<and> db w' = db w \<and> comments w' = comments w
        \<and> icons_loop cfg e b h issue send (icon # icons) msgs w
             = icons_loop cfg e b h issue send icons msgs w'"
    by blast
qed

theorem head_404_skips_and_releases_witness:
  "status_code (http_get deletion_env (blob_url head_side0 ''icons/test.dmi'')) = 404
   \<and> status_code (http_get deletion_env (blob_url base_side0 ''icons/test.dmi'')) = 200
   \<and> fs (fetched deletion_env base_side0 head_side0 ''icons/test.dmi'' empty_world) ''./icon_dump/old_test.dmi''
       = Some ''DMI-old''
   \<and> (\<exists>w'. check_icon bot_config deletion_env base_side0 head_side0 issue7 True ''icons/test.dmi''
              [''Icons with diff:''] empty_world = (Inr [''Icons with diff:''], w')
         \<and> trace w' = [Get base_blob0, Get head_blob0]
         \<and> fs w' ''./icon_dump/old_test.dmi'' = None)"
proof -
  have h: "status_code (http_get deletion_env (blob_url head_side0 ''icons/test.dmi'')) = 404"
    and b: "status_code (http_get deletion_env (blob_url base_side0 ''icons/test.dmi'')) = 200"
    and c: "content (http_get deletion_env (blob_url base_side0 ''icons/test.dmi'')) = ''DMI-old''"
    by (simp_all add: deletion_env_def test_icon_paths blobs_differ)
  from head_404_skips_and_releases[of deletion_env head_side0 "''icons/test.dmi''" bot_config base_side0
         issue7 True "[''Icons with diff:'']" empty_world "[]"] h b
  obtain w' where
    "check_icon bot_config deletion_env base_side0 head_side0 issue7 True ''icons/test.dmi''
              [''Icons with diff:''] empty_world = (Inr [''Icons with diff:''], w')"
    "trace w' = trace empty_world @ [Get (blob_url base_side0 ''icons/test.dmi''), Get (blob_url head_side0 ''icons/test.dmi'')]"
    "fs (fetched deletion_env base_side0 head_side0 ''icons/test.dmi'' empty_world) (scratch_old ''icons/test.dmi'')
       = Some (content (http_get deletion_env (blob_url base_side0 ''icons/test.dmi'')))"
    "fs w' (scratch_old ''icons/test.dmi'') = None"
    by auto
  moreover have "status_code (http_get deletion_env base_blob0) = 200"
    and "content (http_get deletion_env base_blob0) = ''DMI-old''"
    by (simp_all add: deletion_env_def)
  ultimately have "fs (fetched deletion_env base_side0 head_side0 ''icons/test.dmi'' empty_world) ''./icon_dump/old_test.dmi''
       = Some ''DMI-old''
   \<and> (check_icon bot_config deletion_env base_side0 head_side0 issue7 True ''icons/test.dmi''
              [''Icons with diff:''] empty_world = (Inr [''Icons with diff:''], w')
         \<and> trace w' = [Get base_blob0, Get head_blob0]
         \<and> fs w' ''./icon_dump/old_test.dmi'' = None)"
    by (simp add: test_icon_paths empty_world_def)
  with h b show ?thesis by blast
qed

subsection \<open>The failed fetch\<close>

lemma check_icon_trace:
  assumes "status_code (http_get e (blob_url h icon)) \<noteq> 404"
  shows "\<exists>ups. trace (snd (check_icon cfg e b h issue send icon msgs w))
           = trace w @ [Get (blob_url b icon), Get (blob_url h icon),
                        Compare (base_path e b icon) (scratch_new icon)] @ ups
         \<and> list_all is_upload ups"
proof -
  let ?d = "compare_two_icon_files e (fs (staged e b h icon w)) (base_path e b icon) (scratch_new icon)"
  let ?w4 = "emit (Compare (base_path e b icon) (scratch_new icon)) (staged e b h icon w)"
  have t4: "trace ?w4 = trace w @ [Get (blob_url b icon), Get (blob_url h icon),
                        Compare (base_path e b icon) (scratch_new icon)]" by simp
  show ?thesis
  proof (cases "?d = []")
    case True
    with assms have "snd (check_icon cfg e b h issue send icon msgs w) = ?w4"
      by (simp add: check_icon_unfold)
    with t4 show ?thesis by simp
  next
    case False
    obtain r w5 where r: "render_rows cfg e send ?d (block_header icon) ?w4 = (r, w5)"
      by (cases "render_rows cfg e send ?d (block_header icon) ?w4")
    from render_rows_world[of cfg e send ?d "block_header icon" ?w4] r
    obtain ups where ups: "trace w5 = trace ?w4 @ ups" "list_all is_upload ups" by auto
    have "trace (snd (check_icon cfg e b h issue send icon msgs w)) = trace w5"
      using assms False r by (cases r) (simp_all add: check_icon_unfold Let_def)
    with ups t4 show ?thesis by simp
  qed
qed

text \<open>
  C5, as amended. A status other than 200 and 404 on a fetch has no handling of its
  own: nothing is staged for that side and nothing is logged. Unless the head side
  answered 404, the path is not skipped: the comparison is called on the two scratch
  paths, with whatever they hold, the calls of the pass are the two fetches, the
  comparison and the uploads of its images, and when the rows are rendered the block of
  the path is reported like any other. The loop then goes on with the remaining paths.
\<close>

theorem fetch_error_is_compared:
  "status_code (http_get e (blob_url h icon)) \<noteq> 404 \<longrightarrow>
     (\<exists>ups. trace (snd (check_icon cfg e b h issue send icon msgs w))
           = trace w @ [Get (blob_url b icon), Get (blob_url h icon),
                        Compare (base_path e b icon) (scratch_new icon)] @ ups
         \<and> list_all is_upload ups)
     \<and> (status_code (http_get e (blob_url b icon)) \<noteq> 200 \<longrightarrow>
           fs (staged e b h icon w) (scratch_old icon) = fs w (scratch_old icon))
     \<and> (status_code (http_get e (blob_url h icon)) \<noteq> 200 \<longrightarrow>
           fs (staged e b h icon w) (scratch_new icon) = fs w (scratch_new icon))
     \<and> (\<forall>rows w5.
           compare_two_icon_files e (fs (staged e b h icon w)) (base_path e b icon) (scratch_new icon) \<noteq> []
           \<and> render_rows cfg e send
                (compare_two_icon_files e (fs (staged e b h icon w)) (base_path e b icon) (scratch_new icon))
                (block_header icon)
                (emit (Compare (base_path e b icon) (scratch_new icon)) (staged e b h icon w)) = (Inr rows, w5) \<longrightarrow>
           fst (check_icon cfg e b h issue send icon msgs w)
             = Inr (if length rows > 3 then msgs @ [join_nl (rows @ [''</details>''])] else msgs))
     \<and> (\<forall>msgs' w'. check_icon cfg e b h issue send icon msgs w = (Inr msgs', w') \<longrightarrow>
           icons_loop cfg e b h issue send (icon # icons) msgs w
             = icons_loop cfg e b h issue send icons msgs' w')"
proof (intro impI conjI allI)
  assume h: "status_code (http_get e (blob_url h icon)) \<noteq> 404"
  then show "\<exists>ups. trace (snd (check_icon cfg e b h issue send icon msgs w))
           = trace w @ [Get (blob_url b icon), Get (blob_url h icon),
                        Compare (base_path e b icon) (scratch_new icon)] @ ups
         \<and> list_all is_upload ups"
    by (rule check_icon_trace)
  {
    assume "status_code (http_get e (blob_url b icon)) \<noteq> 200"
    then show "fs (staged e b h icon w) (scratch_old icon) = fs w (scratch_old icon)" by simp
  }
  {
    assume "status_code (http_get e (blob_url h icon)) \<noteq> 200"
    then show "fs (staged e b h icon w) (scratch_new icon) = fs w (scratch_new icon)" by simp
  }
  {
    fix rows w5
    assume "compare_two_icon_files e (fs (staged e b h icon w)) (base_path e b icon) (scratch_new icon) \<noteq> []
           \<and> render_rows cfg e send
                (compare_two_icon_files e (fs (staged e b h icon w)) (base_path e b icon) (scratch_new icon))
                (block_header icon)
                (emit (Compare (base_path e b icon) (scratch_new icon)) (staged e b h icon w)) = (Inr rows, w5)"
    with h show "fst (check_icon cfg e b h issue send icon msgs w)
             = Inr (if length rows > 3 then msgs @ [join_nl (rows @ [''</details>''])] else msgs)"
      by (simp add: check_icon_unfold Let_def)
  }
  {
    fix msgs' w'
    assume "check_icon cfg e b h issue send icon msgs w = (Inr msgs', w')"
    then show "icons_loop cfg e b h issue send (icon # icons) msgs w
             = icons_loop cfg e b h issue send icons msgs' w'" by simp
  }
qed

lemma broken_base_statuses:
  "status_code (http_get broken_base_env base_blob0) = 500"
  "status_code (http_get broken_base_env head_blob0) = 200"
  "content (http_get broken_base_env head_blob0) = ''DMI-new''"
  by (simp_all add: broken_base_env_def blobs_differ)

lemma broken_base_rows:
  "render_rows bot_config broken_base_env True
     (compare_two_icon_files broken_base_env files ''./icon_dump/old_test.dmi'' ''./icon_dump/new_test.dmi'')
     (block_header ''icons/test.dmi'') w
   = (if db w ''h-new'' = None then
        (Inr (block_header ''icons/test.dmi'' @ [''state|![]()|![state](https://img.example/PNG-new)|Added'']),
         remove_file ''./icon_dump/new_state.png''
           ((emit (Upload ''h-new'' ''PNG-new'') (write_file ''./icon_dump/new_state.png'' ''PNG-new'' w))
              \<lparr>db := (db w)(''h-new'' \<mapsto> ''https://img.example/PNG-new'')\<rparr>))
      else
        (Inr (block_header ''icons/test.dmi'' @ [''state|![]()|!['' @ ''state'' @ '']('' @ the (db w ''h-new'') @ '')|Added'']),
         remove_file ''./icon_dump/new_state.png'' (write_file ''./icon_dump/new_state.png'' ''PNG-new'' w)))"
  by (auto simp: broken_base_env_def quiet_env_def image_link_def upload_image_def bot_config_def Let_def)

lemma broken_base_dict:
  "compare_two_icon_files broken_base_env files path_a path_b \<noteq> []"
  by (simp add: broken_base_env_def)

lemma broken_base_pass:
  "fst (check_icon bot_config broken_base_env base_side0 head_side0 issue7 True ''icons/test.dmi''
          [''Icons with diff:''] empty_world)
     = Inr [''Icons with diff:'',
            join_nl (block_header ''icons/test.dmi'' @
                     [''state|![]()|![state](https://img.example/PNG-new)|Added'', ''</details>''])]"
  "trace (snd (check_icon bot_config broken_base_env base_side0 head_side0 issue7 True ''icons/test.dmi''
          [''Icons with diff:''] empty_world))
     = [Get base_blob0, Get head_blob0,
        Compare ''./icon_dump/old_test.dmi'' ''./icon_dump/new_test.dmi'',
        Upload ''h-new'' ''PNG-new'']"
proof -
  have l: "length (block_header ''icons/test.dmi'') = 3" by (simp add: block_header_def)
  show "fst (check_icon bot_config broken_base_env base_side0 head_side0 issue7 True ''icons/test.dmi''
          [''Icons with diff:''] empty_world)
     = Inr [''Icons with diff:'',
            join_nl (block_header ''icons/test.dmi'' @
                     [''state|![]()|![state](https://img.example/PNG-new)|Added'', ''</details>''])]"
    by (simp add: check_icon_unfold Let_def test_icon_paths base_path_def broken_base_statuses
          broken_base_rows broken_base_dict l empty_world_def)
  show "trace (snd (check_icon bot_config broken_base_env base_side0 head_side0 issue7 True ''icons/test.dmi''
          [''Icons with diff:''] empty_world))
     = [Get base_blob0, Get head_blob0,
        Compare ''./icon_dump/old_test.dmi'' ''./icon_dump/new_test.dmi'',
        Upload ''h-new'' ''PNG-new'']"
    by (simp add: check_icon_unfold Let_def test_icon_paths base_path_def broken_base_statuses
          broken_base_rows broken_base_dict l empty_world_def)
qed

text \<open>
  C5 as stated fails: the base side answers 500, and the path is compared and reported,
  with no line logged.
\<close>

theorem fetch_error_is_compared_counterexample:
  "status_code (http_get broken_base_env (blob_url base_side0 ''icons/test.dmi'')) = 500
   \<and> fst (check_icon bot_config broken_base_env base_side0 head_side0 issue7 True ''icons/test.dmi''
          [''Icons with diff:''] empty_world)
       = Inr [''Icons with diff:'',
              join_nl (block_header ''icons/test.dmi'' @
                       [''state|![]()|![state](https://img.example/PNG-new)|Added'', ''</details>''])]
   \<and> trace (snd (check_icon bot_config broken_base_env base_side0 head_side0 issue7 True ''icons/test.dmi''
          [''Icons with diff:''] empty_world))
       = [Get base_blob0, Get head_blob0,
          Compare ''./icon_dump/old_test.dmi'' ''./icon_dump/new_test.dmi'',
          Upload ''h-new'' ''PNG-new'']"
  using broken_base_pass by (simp add: test_icon_paths broken_base_statuses)

theorem fetch_error_is_compared_witness:
  "status_code (http_get broken_base_env (blob_url head_side0 ''icons/test.dmi'')) \<noteq> 404
   \<and> status_code (http_get broken_base_env (blob_url base_side0 ''icons/test.dmi'')) = 500
   \<and> (\<exists>ups. trace (snd (check_icon bot_config broken_base_env base_side0 head_side0 issue7 True
                  ''icons/test.dmi'' [''Icons with diff:''] empty_world))
          = [Get base_blob0, Get head_blob0,
             Compare ''./icon_dump/old_test.dmi'' ''./icon_dump/new_test.dmi''] @ ups
        \<and> list_all is_upload ups)
   \<and> fs (staged broken_base_env base_side0 head_side0 ''icons/test.dmi'' empty_world)
        ''./icon_dump/old_test.dmi'' = None"
proof -
  have h: "status_code (http_get broken_base_env (blob_url head_side0 ''icons/test.dmi'')) \<noteq> 404"
    and b: "status_code (http_get broken_base_env (blob_url base_side0 ''icons/test.dmi'')) = 500"
    by (simp_all add: test_icon_paths broken_base_statuses)
  have p: "base_path broken_base_env base_side0 ''icons/test.dmi'' = ''./icon_dump/old_test.dmi''"
    by (simp add: base_path_def test_icon_paths broken_base_statuses)
  from fetch_error_is_compared[of broken_base_env head_side0 "''icons/test.dmi''" bot_config base_side0
         issue7 True "[''Icons with diff:'']" empty_world "[]"] h b
  have "(\<exists>ups. trace (snd (check_icon bot_config broken_base_env base_side0 head_side0 issue7 True
                  ''icons/test.dmi'' [''Icons with diff:''] empty_world))
           = trace empty_world @ [Get (blob_url base_side0 ''icons/test.dmi''), Get (blob_url head_side0 ''icons/test.dmi''),
                        Compare (base_path broken_base_env base_side0 ''icons/test.dmi'') (scratch_new ''icons/test.dmi'')] @ ups
         \<and> list_all is_upload ups)"
    and "fs (staged broken_base_env base_side0 head_side0 ''icons/test.dmi'' empty_world) (scratch_old ''icons/test.dmi'')
           = fs empty_world (scratch_old ''icons/test.dmi'')"
    by simp_all
  then have "(\<exists>ups. trace (snd (check_icon bot_config broken_base_env base_side0 head_side0 issue7 True
                  ''icons/test.dmi'' [''Icons with diff:''] empty_world))
          = [Get base_blob0, Get head_blob0,
             Compare ''./icon_dump/old_test.dmi'' ''./icon_dump/new_test.dmi''] @ ups
        \<and> list_all is_upload ups)"
    and "fs (staged broken_base_env base_side0 head_side0 ''icons/test.dmi'' empty_world)
        ''./icon_dump/old_test.dmi'' = None"
    unfolding p test_icon_paths by (simp_all add: empty_world_def)
  with h b show ?thesis by blast
qed

subsection \<open>The webhook receiver\<close>


lemma check_comments_trace:
  "trace (snd (check_comments cfg e api w)) = trace w @ [Get api]"
  by (simp add: check_comments_def api_list_def Let_def)

lemma post_comment_trace:
  "\<exists>evs. trace (post_comment cfg e issue m b w) = trace w @ evs"
proof -
  obtain cid w1 where c: "check_comments cfg e (issue @ ''/comments'') w = (cid, w1)"
    by (cases "check_comments cfg e (issue @ ''/comments'') w")
  with check_comments_trace[of cfg e "issue @ ''/comments''" w]
  have t1: "trace w1 = trace w @ [Get (issue @ ''/comments'')]" by simp
  show ?thesis
  proof (cases cid)
    case None
    obtain r w2 where a: "api_create cfg e (issue @ ''/comments'') (join_nl m)
           (emit (Post (issue @ ''/comments'') (join_nl m)) w1) = (r, w2)"
      by (cases "api_create cfg e (issue @ ''/comments'') (join_nl m)
           (emit (Post (issue @ ''/comments'') (join_nl m)) w1)")
    with api_trace(1)[of cfg e "issue @ ''/comments''" "join_nl m" "emit (Post (issue @ ''/comments'') (join_nl m)) w1"]
    have "trace w2 = trace w @ [Get (issue @ ''/comments''), Post (issue @ ''/comments'') (join_nl m)]"
      using t1 by simp
    with c None a show ?thesis
      by (cases r) (simp add: post_comment_def Let_def log_message_def)
  next
    case (Some u)
    let ?w = "emit (Patch u (join_nl m))
             (log_message (''['' @ repo_full_name b @ ''] Found a comment from us on the pull request; '' @ u) w1)"
    obtain r w2 where a: "api_update e u (join_nl m) ?w = (r, w2)"
      by (cases "api_update e u (join_nl m) ?w")
    then have "w2 = snd (api_update e u (join_nl m) ?w)" by simp
    then have "trace w2 = trace ?w" by simp
    then have "\<exists>evs. trace w2 = trace w @ evs"
      using t1 by (simp add: log_message_def)
    with c Some a show ?thesis
      by (cases r) (auto simp: post_comment_def Let_def log_message_def)
  qed
qed

lemma check_icon_extends_trace:
  "\<exists>evs. trace (snd (check_icon cfg e b h issue send icon msgs w)) = trace w @ evs"
proof (cases "status_code (http_get e (blob_url h icon)) = 404")
  case True
  then show ?thesis by (simp add: check_icon_unfold)
next
  case False
  from check_icon_trace[OF False, of cfg b issue send msgs w] show ?thesis by auto
qed

lemma icons_loop_extends_trace:
  "\<exists>evs. trace (snd (icons_loop cfg e b h issue send icons msgs w)) = trace w @ evs"
proof (induction icons arbitrary: msgs w)
  case Nil
  then show ?case by simp
next
  case (Cons icon icons)
  obtain r w1 where c: "check_icon cfg e b h issue send icon msgs w = (r, w1)"
    by (cases "check_icon cfg e b h issue send icon msgs w")
  with check_icon_extends_trace[of cfg e b h issue send icon msgs w]
  obtain evs1 where t1: "trace w1 = trace w @ evs1" by auto
  show ?case
  proof (cases r)
    case (Inl err)
    with c t1 show ?thesis by simp
  next
    case (Inr msgs')
    from Cons.IH[of msgs' w1] obtain evs2 where
      "trace (snd (icons_loop cfg e b h issue send icons msgs' w1)) = trace w1 @ evs2" by blast
    with c Inr t1 show ?thesis by simp
  qed
qed

lemma check_icons_extends_trace:
  "\<exists>evs. trace (snd (check_icons cfg e icons b h issue send w)) = trace w @ evs"
proof -
  obtain r w1 where l: "icons_loop cfg e b h issue send icons [''Icons with diff:''] w = (r, w1)"
    by (cases "icons_loop cfg e b h issue send icons [''Icons with diff:''] w")
  with icons_loop_extends_trace[of cfg e b h issue send icons "[''Icons with diff:'']" w]
  obtain evs1 where t1: "trace w1 = trace w @ evs1" by auto
  show ?thesis
  proof (cases r)
    case (Inl err)
    with l t1 show ?thesis by (simp add: check_icons_def)
  next
    case (Inr msgs)
    from post_comment_trace[of cfg e issue msgs b w1] obtain evs2 where
      "trace (post_comment cfg e issue msgs b w1) = trace w1 @ evs2" by blast
    with l Inr t1 show ?thesis by (simp add: check_icons_def)
  qed
qed


lemma raise_or_Inr: "raise_or (Inr x) w k = k x"
  by (simp add: raise_or_def)






text \<open>On objects that hold the fields as strings, \<^verbatim>\<open>check_icons\<close> as the handler calls it is
  \<^verbatim>\<open>check_icons\<close> on the values read.\<close>

lemma check_icon_full_name:
  "check_icon cfg e (b\<lparr>repo_full_name := n\<rparr>) (h\<lparr>repo_full_name := m\<rparr>) issue send icon msgs w
     = check_icon cfg e b h issue send icon msgs w"
  by (simp add: check_icon_def)

lemma icons_loop_full_name:
  "icons_loop cfg e (b\<lparr>repo_full_name := n\<rparr>) (h\<lparr>repo_full_name := m\<rparr>) issue send icons msgs w
     = icons_loop cfg e b h issue send icons msgs w"
  by (induction icons arbitrary: msgs w)
    (simp_all add: check_icon_full_name split: prod.splits sum.splits)

lemma side_object_reads:
  "dict_get (side_object s) ''repo''
     = Inr (JObj [(''html_url'', JStr (repo_html_url s)), (''full_name'', JStr (repo_full_name s))])"
  "subscript (side_object s) ''repo''
     = Inr (JObj [(''html_url'', JStr (repo_html_url s)), (''full_name'', JStr (repo_full_name s))])"
  "subscript (side_object s) ''ref'' = Inr (JStr (ref s))"
  "dict_get (JObj [(''html_url'', JStr u), (''full_name'', JStr n)]) ''html_url'' = Inr (JStr u)"
  "subscript (JObj [(''html_url'', JStr u), (''full_name'', JStr n)]) ''full_name'' = Inr (JStr n)"
  by (simp_all add: side_object_def dict_get_def subscript_def)

lemma check_icons_untyped_on_sides:
  "check_icons_untyped cfg e icons (side_object b) (side_object h) (JStr issue) send w
     = check_icons cfg e icons b h issue send w"
proof (cases icons)
  case Nil
  then show ?thesis
    by (simp add: check_icons_untyped_def check_icons_def side_object_reads raise_or_Inr)
next
  case (Cons icon rest)
  have b: "\<lparr>ref = ref b, repo_html_url = repo_html_url b, repo_full_name = []\<rparr> = b\<lparr>repo_full_name := []\<rparr>"
    and h: "\<lparr>ref = ref h, repo_html_url = repo_html_url h, repo_full_name = []\<rparr> = h\<lparr>repo_full_name := []\<rparr>"
    by simp_all
  have sb: "\<lparr>ref = ref b, repo_html_url = repo_html_url b, repo_full_name = repo_full_name b\<rparr> = b"
    by simp
  have l: "icons_loop cfg e \<lparr>ref = ref b, repo_html_url = repo_html_url b, repo_full_name = []\<rparr>
             \<lparr>ref = ref h, repo_html_url = repo_html_url h, repo_full_name = []\<rparr> issue send icons msgs w
           = icons_loop cfg e b h issue send icons msgs w" for msgs
    by (simp only: b h icons_loop_full_name)
  show ?thesis
    unfolding check_icons_untyped_def check_icons_def side_object_reads raise_or_Inr
    using Cons l[of "[''Icons with diff:'']"]
    by (simp add: py_str_def Let_def sb del: icons_loop.simps split: prod.splits sum.splits)
qed





















end
